theory Spec2Isabelle
  imports Complex_Main
begin

section \<open>Viewport (src/renderer/Viewport.ts)\<close>

text \<open>
  JavaScript numbers are modelled as real numbers. A quotient whose divisor is zero is
  not a real number in JavaScript (it is an infinity or NaN); the model keeps the three
  non-finite results apart where the source feeds them to \<open>Math.min\<close>/\<open>Math.max\<close>
  (\<open>fitBounds\<close>), and an operation whose stored result would not be finite returns
  \<open>None\<close>.

  A scale is stored from four places: the constructor's option, a result of \<open>clamp\<close>
  (which returns its argument or one of the bounds, whatever rounding produced the
  argument), the scale already stored, and a result of \<open>lerp\<close>. The last is the one
  computed number that is stored as it comes out of the arithmetic, so \<open>lerp\<close> is
  modelled with the rounding of binary64, the number format of JavaScript.
\<close>

record Point =
  p_x :: real
  p_y :: real

record Bounds =
  minX :: real
  minY :: real
  maxX :: real
  maxY :: real

text \<open>The part of \<open>container.getBoundingClientRect()\<close> that the viewport reads.\<close>

record ClientRect =
  r_width :: real
  r_height :: real

record ViewportTransform =
  t_x :: real
  t_y :: real
  scale :: real

text \<open>The constructor's \<open>options\<close> argument: every field may be absent.\<close>

record ViewportOptions =
  o_minScale :: "real option"
  o_maxScale :: "real option"
  o_zoomSpeed :: "real option"
  o_initialScale :: "real option"
  o_initialPosition :: "Point option"

datatype event = ZOOM_CHANGE real | PAN_CHANGE real real

text \<open>
  The closure of a scheduled animation frame (\<open>animationId \<noteq> null\<close>): the transform
  at the start, the target and the start time.
\<close>

record Animation =
  a_start :: ViewportTransform
  a_target :: ViewportTransform
  a_startTime :: real

text \<open>
  The viewport. \<open>emitted\<close> lists the events handed to the event bus, in order; the
  bus catches what a handler throws, and handlers are taken not to call back into the
  viewport.
\<close>

record Viewport =
  transform :: ViewportTransform
  minScale :: real
  maxScale :: real
  zoomSpeed :: real
  isDragging :: bool
  dragStart :: Point
  dragOffset :: Point
  animation :: "Animation option"
  emitted :: "event list"

text \<open>\<open>a || d\<close> on an optional number: \<open>undefined\<close> and \<open>0\<close> are falsy.\<close>

definition js_or :: "real option \<Rightarrow> real \<Rightarrow> real" where
  "js_or a d = (case a of None \<Rightarrow> d | Some v \<Rightarrow> if v = 0 then d else v)"

definition Viewport_new :: "ViewportOptions \<Rightarrow> Viewport" where
  "Viewport_new options =
     \<lparr> transform =
         \<lparr> t_x = js_or (map_option p_x (o_initialPosition options)) 0,
           t_y = js_or (map_option p_y (o_initialPosition options)) 0,
           scale = js_or (o_initialScale options) 1 \<rparr>,
       minScale = js_or (o_minScale options) (1 / 10),
       maxScale = js_or (o_maxScale options) 5,
       zoomSpeed = js_or (o_zoomSpeed options) (1 / 10),
       isDragging = False,
       dragStart = \<lparr> p_x = 0, p_y = 0 \<rparr>,
       dragOffset = \<lparr> p_x = 0, p_y = 0 \<rparr>,
       animation = None,
       emitted = [] \<rparr>"

definition clamp :: "real \<Rightarrow> real \<Rightarrow> real \<Rightarrow> real" where
  "clamp v lo hi = min (max v lo) hi"

text \<open>
  Rounding to binary64 (IEEE 754 double precision, round to nearest, ties to even): a
  number \<open>x\<close> with \<open>2 ^ e \<le> \<bar>x\<bar> < 2 ^ (e + 1)\<close> is rounded to a multiple of
  \<open>2 ^ (e - 52)\<close>, and the exponent is not taken below \<open>- 1022\<close> (subnormal
  numbers). \<open>exponent_of k x\<close> finds \<open>e\<close> for a positive \<open>x\<close> in at most \<open>k\<close>
  halvings or doublings. A result of magnitude \<open>2 ^ 1024\<close> or more, which is an infinity
  in JavaScript, is outside the model.
\<close>

fun exponent_of :: "nat \<Rightarrow> real \<Rightarrow> int" where
  "exponent_of 0 x = 0"
| "exponent_of (Suc k) x =
     (if 2 \<le> x then exponent_of k (x / 2) + 1
      else if x < 1 then exponent_of k (x * 2) - 1
      else 0)"

definition two_to :: "int \<Rightarrow> real" where
  "two_to e = (if 0 \<le> e then 2 ^ nat e else 1 / 2 ^ nat (- e))"

definition round_half_even :: "real \<Rightarrow> int" where
  "round_half_even x =
     (let f = \<lfloor>x\<rfloor>; d = x - of_int f
      in if d < 1 / 2 then f
         else if 1 / 2 < d then f + 1
         else if even f then f else f + 1)"

definition binary64 :: "real \<Rightarrow> real" where
  "binary64 x =
     (if x = 0 then 0
      else
        (let u = two_to (max (exponent_of 1100 \<bar>x\<bar>) (- 1022) - 52)
         in of_int (round_half_even (x / u)) * u))"

text \<open>
  \<open>lerp\<close> of helpers.ts, \<open>start + (end - start) * t\<close>: the difference, the product
  and the sum are each rounded.
\<close>

definition lerp :: "real \<Rightarrow> real \<Rightarrow> real \<Rightarrow> real" where
  "lerp start end t = binary64 (start + binary64 (binary64 (end - start) * t))"

definition easeInOutCubic :: "real \<Rightarrow> real" where
  "easeInOutCubic t = (if t < 1 / 2 then 4 * t * t * t else 1 - (- 2 * t + 2) ^ 3 / 2)"

definition zoomDuration :: real where
  "zoomDuration = 150"

definition applyTransform :: "ViewportTransform \<Rightarrow> Viewport \<Rightarrow> Viewport" where
  "applyTransform t vp =
     vp \<lparr> transform := t,
          emitted := emitted vp @ [ZOOM_CHANGE (scale t), PAN_CHANGE (t_x t) (t_y t)] \<rparr>"

text \<open>
  One run of the \<open>animate\<close> closure of \<open>animateTransform\<close>; \<open>now\<close> is what
  \<open>Date.now()\<close> returns in it.
\<close>

definition animate_frame :: "Animation \<Rightarrow> real \<Rightarrow> Viewport \<Rightarrow> Viewport" where
  "animate_frame a now vp =
     (let elapsed = now - a_startTime a;
          progress = min (elapsed / zoomDuration) 1;
          t = easeInOutCubic progress;
          vp' = applyTransform
                  \<lparr> t_x = lerp (t_x (a_start a)) (t_x (a_target a)) t,
                    t_y = lerp (t_y (a_start a)) (t_y (a_target a)) t,
                    scale = lerp (scale (a_start a)) (scale (a_target a)) t \<rparr> vp
      in vp' \<lparr> animation := (if progress < 1 then Some a else None) \<rparr>)"

text \<open>
  \<open>animateTransform\<close>: a pending frame is cancelled, the closure is created at time
  \<open>t0\<close> and runs once at once, at time \<open>t1\<close>.
\<close>

definition animateTransform :: "ViewportTransform \<Rightarrow> real \<Rightarrow> real \<Rightarrow> Viewport \<Rightarrow> Viewport" where
  "animateTransform target t0 t1 vp =
     animate_frame \<lparr> a_start = transform vp, a_target = target, a_startTime = t0 \<rparr> t1 vp"

text \<open>The browser runs the scheduled frame, if one is pending.\<close>

definition frame :: "real \<Rightarrow> Viewport \<Rightarrow> Viewport" where
  "frame now vp = (case animation vp of None \<Rightarrow> vp | Some a \<Rightarrow> animate_frame a now vp)"

definition setTransform ::
  "real option \<Rightarrow> real option \<Rightarrow> real option \<Rightarrow> bool \<Rightarrow> real \<Rightarrow> real \<Rightarrow> Viewport \<Rightarrow> Viewport" where
  "setTransform nx ny nscale animate t0 t1 vp =
     (let newTransform =
            \<lparr> t_x = (case nx of Some v \<Rightarrow> v | None \<Rightarrow> t_x (transform vp)),
              t_y = (case ny of Some v \<Rightarrow> v | None \<Rightarrow> t_y (transform vp)),
              scale = (case nscale of Some v \<Rightarrow> clamp v (minScale vp) (maxScale vp)
                       | None \<Rightarrow> scale (transform vp)) \<rparr>
      in if animate then animateTransform newTransform t0 t1 vp
         else applyTransform newTransform vp)"

text \<open>
  \<open>zoom\<close> divides by the current scale when a centre is given and the scale changes;
  with a current scale of zero the new offsets are not finite.
\<close>

definition zoom :: "real \<Rightarrow> Point option \<Rightarrow> Viewport \<Rightarrow> Viewport option" where
  "zoom delta center vp =
     (let factor = 1 + delta * zoomSpeed vp;
          newScale = clamp (scale (transform vp) * factor) (minScale vp) (maxScale vp)
      in if newScale = scale (transform vp) then Some vp
         else
           (case center of
              None \<Rightarrow>
                Some (vp \<lparr> transform := (transform vp) \<lparr> scale := newScale \<rparr>,
                           emitted := emitted vp @ [ZOOM_CHANGE newScale] \<rparr>)
            | Some c \<Rightarrow>
                if scale (transform vp) = 0 then None
                else
                  (let ratio = newScale / scale (transform vp);
                       x' = p_x c - (p_x c - t_x (transform vp)) * ratio;
                       y' = p_y c - (p_y c - t_y (transform vp)) * ratio
                   in Some (vp \<lparr> transform := \<lparr> t_x = x', t_y = y', scale = newScale \<rparr>,
                                  emitted := emitted vp @ [ZOOM_CHANGE newScale] \<rparr>))))"

definition zoomIn :: "Point option \<Rightarrow> Viewport \<Rightarrow> Viewport option" where
  "zoomIn center vp = zoom 1 center vp"

definition zoomOut :: "Point option \<Rightarrow> Viewport \<Rightarrow> Viewport option" where
  "zoomOut center vp = zoom (- 1) center vp"

definition resetZoom :: "bool \<Rightarrow> real \<Rightarrow> real \<Rightarrow> Viewport \<Rightarrow> Viewport" where
  "resetZoom animate t0 t1 vp = setTransform None None (Some 1) animate t0 t1 vp"

definition pan :: "real \<Rightarrow> real \<Rightarrow> Viewport \<Rightarrow> Viewport" where
  "pan dx dy vp =
     (let x' = t_x (transform vp) + dx; y' = t_y (transform vp) + dy
      in vp \<lparr> transform := (transform vp) \<lparr> t_x := x', t_y := y' \<rparr>,
              emitted := emitted vp @ [PAN_CHANGE x' y'] \<rparr>)"

definition centerTo :: "ClientRect \<Rightarrow> Point \<Rightarrow> bool \<Rightarrow> real \<Rightarrow> real \<Rightarrow> Viewport \<Rightarrow> Viewport" where
  "centerTo rect point animate t0 t1 vp =
     (let centerX = r_width rect / 2; centerY = r_height rect / 2
      in setTransform (Some (centerX - p_x point * scale (transform vp)))
                      (Some (centerY - p_y point * scale (transform vp)))
                      None animate t0 t1 vp)"

text \<open>JavaScript division, \<open>Math.min\<close> and \<open>clamp\<close> on possibly non-finite numbers.\<close>

datatype xnum = Fin real | PosInf | NegInf | NaN

definition js_div :: "real \<Rightarrow> real \<Rightarrow> xnum" where
  "js_div a b =
     (if b \<noteq> 0 then Fin (a / b)
      else if a = 0 then NaN
      else if 0 < a then PosInf else NegInf)"

fun x_min :: "xnum \<Rightarrow> xnum \<Rightarrow> xnum" where
  "x_min NaN _ = NaN"
| "x_min _ NaN = NaN"
| "x_min NegInf _ = NegInf"
| "x_min _ NegInf = NegInf"
| "x_min PosInf b = b"
| "x_min a PosInf = a"
| "x_min (Fin a) (Fin b) = Fin (min a b)"

text \<open>\<open>clamp(v, lo, hi)\<close> with finite bounds: \<open>None\<close> is NaN.\<close>

fun x_clamp :: "xnum \<Rightarrow> real \<Rightarrow> real \<Rightarrow> real option" where
  "x_clamp NaN lo hi = None"
| "x_clamp PosInf lo hi = Some hi"
| "x_clamp NegInf lo hi = Some (min lo hi)"
| "x_clamp (Fin v) lo hi = Some (clamp v lo hi)"

definition fitBounds ::
  "ClientRect \<Rightarrow> Bounds \<Rightarrow> real \<Rightarrow> bool \<Rightarrow> real \<Rightarrow> real \<Rightarrow> Viewport \<Rightarrow> Viewport option" where
  "fitBounds rect bounds padding animate t0 t1 vp =
     (let boundsWidth = maxX bounds - minX bounds;
          boundsHeight = maxY bounds - minY bounds;
          scaleX = js_div (r_width rect - padding * 2) boundsWidth;
          scaleY = js_div (r_height rect - padding * 2) boundsHeight
      in case x_clamp (x_min scaleX scaleY) (minScale vp) (maxScale vp) of
           None \<Rightarrow> None
         | Some s \<Rightarrow>
             (let centerX = (minX bounds + maxX bounds) / 2;
                  centerY = (minY bounds + maxY bounds) / 2
              in Some (setTransform (Some (r_width rect / 2 - centerX * s))
                                    (Some (r_height rect / 2 - centerY * s))
                                    (Some s) animate t0 t1 vp)))"

definition screenToWorld :: "Viewport \<Rightarrow> Point \<Rightarrow> Point option" where
  "screenToWorld vp point =
     (if scale (transform vp) = 0 then None
      else Some \<lparr> p_x = (p_x point - t_x (transform vp)) / scale (transform vp),
                  p_y = (p_y point - t_y (transform vp)) / scale (transform vp) \<rparr>)"

definition worldToScreen :: "Viewport \<Rightarrow> Point \<Rightarrow> Point" where
  "worldToScreen vp point =
     \<lparr> p_x = p_x point * scale (transform vp) + t_x (transform vp),
       p_y = p_y point * scale (transform vp) + t_y (transform vp) \<rparr>"

definition startDrag :: "Point \<Rightarrow> Viewport \<Rightarrow> Viewport" where
  "startDrag point vp =
     vp \<lparr> isDragging := True, dragStart := point,
          dragOffset := \<lparr> p_x = t_x (transform vp), p_y = t_y (transform vp) \<rparr> \<rparr>"

definition drag :: "Point \<Rightarrow> Viewport \<Rightarrow> Viewport" where
  "drag point vp =
     (if \<not> isDragging vp then vp
      else
        (let x' = p_x (dragOffset vp) + (p_x point - p_x (dragStart vp));
             y' = p_y (dragOffset vp) + (p_y point - p_y (dragStart vp))
         in vp \<lparr> transform := (transform vp) \<lparr> t_x := x', t_y := y' \<rparr>,
                 emitted := emitted vp @ [PAN_CHANGE x' y'] \<rparr>))"

definition endDrag :: "Viewport \<Rightarrow> Viewport" where
  "endDrag vp = vp \<lparr> isDragging := False \<rparr>"

definition destroy :: "Viewport \<Rightarrow> Viewport" where
  "destroy vp = vp \<lparr> animation := None \<rparr>"

subsection \<open>Sequences of viewport calls\<close>

text \<open>
  The calls a client can make on a viewport, with the values the environment supplies to
  each: the container's rectangle and the readings of \<open>Date.now()\<close> (\<open>t0\<close> when
  the animation closure is created, \<open>t1\<close> in its first run). \<open>Frame now\<close> is the
  browser running the scheduled animation frame.
\<close>

datatype vp_call =
    SetTransform "real option" "real option" "real option" bool real real
  | Zoom real "Point option"
  | Pan real real
  | StartDrag Point
  | Drag Point
  | EndDrag
  | CenterTo ClientRect Point bool real real
  | FitBounds ClientRect Bounds real bool real real
  | ResetZoom bool real real
  | Frame real

fun step :: "vp_call \<Rightarrow> Viewport \<Rightarrow> Viewport option" where
  "step (SetTransform nx ny ns animate t0 t1) vp = Some (setTransform nx ny ns animate t0 t1 vp)"
| "step (Zoom delta center) vp = zoom delta center vp"
| "step (Pan dx dy) vp = Some (pan dx dy vp)"
| "step (StartDrag p) vp = Some (startDrag p vp)"
| "step (Drag p) vp = Some (drag p vp)"
| "step EndDrag vp = Some (endDrag vp)"
| "step (CenterTo rect p animate t0 t1) vp = Some (centerTo rect p animate t0 t1 vp)"
| "step (FitBounds rect b padding animate t0 t1) vp = fitBounds rect b padding animate t0 t1 vp"
| "step (ResetZoom animate t0 t1) vp = Some (resetZoom animate t0 t1 vp)"
| "step (Frame now) vp = Some (frame now vp)"

fun run :: "vp_call list \<Rightarrow> Viewport \<Rightarrow> Viewport option" where
  "run [] vp = Some vp"
| "run (c # cs) vp = (case step c vp of None \<Rightarrow> None | Some vp' \<Rightarrow> run cs vp')"

text \<open>
  The calls made without animation: \<open>setTransform\<close>, \<open>centerTo\<close>, \<open>fitBounds\<close>
  and \<open>resetZoom\<close> with \<open>animate = false\<close>, where \<open>fitBounds\<close> does not compute
  \<open>0 / 0\<close>, and every \<open>zoom\<close>, \<open>pan\<close> and drag call. No animation frame is then
  ever scheduled, and \<open>Frame\<close> changes nothing.
\<close>

fun call_ok :: "vp_call \<Rightarrow> bool" where
  "call_ok (SetTransform nx ny ns animate t0 t1) = (\<not> animate)"
| "call_ok (CenterTo rect p animate t0 t1) = (\<not> animate)"
| "call_ok (ResetZoom animate t0 t1) = (\<not> animate)"
| "call_ok (FitBounds rect b padding animate t0 t1) =
     (\<not> animate
      \<and> x_min (js_div (r_width rect - padding * 2) (maxX b - minX b))
               (js_div (r_height rect - padding * 2) (maxY b - minY b)) \<noteq> NaN)"
| "call_ok _ = True"

fun calls_ok :: "vp_call list \<Rightarrow> bool" where
  "calls_ok [] = True"
| "calls_ok (c # cs) = (call_ok c \<and> calls_ok cs)"

text \<open>The invariant: the scale lies within the bounds and no animation is pending.\<close>

definition scale_in_range :: "Viewport \<Rightarrow> real \<Rightarrow> bool" where
  "scale_in_range vp s = (minScale vp \<le> s \<and> s \<le> maxScale vp)"

definition vp_inv :: "Viewport \<Rightarrow> bool" where
  "vp_inv vp = (scale_in_range vp (scale (transform vp)) \<and> animation vp = None)"


subsection \<open>Concrete viewports\<close>

definition default_options :: ViewportOptions where
  "default_options = \<lparr> o_minScale = None, o_maxScale = None, o_zoomSpeed = None,
     o_initialScale = None, o_initialPosition = None \<rparr>"

definition negative_min_viewport :: Viewport where
  "negative_min_viewport = Viewport_new (default_options \<lparr> o_minScale := Some (- 1) \<rparr>)"

definition oversized_initial_scale :: ViewportOptions where
  "oversized_initial_scale = default_options \<lparr> o_initialScale := Some 10 \<rparr>"

text \<open>
  The scenario of the specification: bounds of 1000 by 500 fitted with padding 50 into a
  surface of 800 by 600, then a zoom step and a reset, all without animation.
\<close>

definition fit_scenario :: "vp_call list" where
  "fit_scenario =
     [FitBounds \<lparr> r_width = 800, r_height = 600 \<rparr>
        \<lparr> minX = 0, minY = 0, maxX = 1000, maxY = 500 \<rparr> 50 False 0 0,
      Zoom 100 None,
      ResetZoom False 0 0,
      Frame 75]"

text \<open>
  An animated fit: bounds of 100000 by 50000 fitted with padding 50 into a surface of 800
  by 600 (the target scale is \<open>minScale\<close>), the animation starting at time 0 with its
  first frame at once and its last frame at time 150, the duration of the animation.
\<close>

definition animated_fit :: "vp_call list" where
  "animated_fit =
     [FitBounds \<lparr> r_width = 800, r_height = 600 \<rparr>
        \<lparr> minX = 0, minY = 0, maxX = 100000, maxY = 50000 \<rparr> 50 True 0 0,
      Frame 150]"

text \<open>A fit of empty bounds into a surface that the padding uses up: \<open>0 / 0\<close>.\<close>

definition empty_fit :: vp_call where
  "empty_fit =
     FitBounds \<lparr> r_width = 100, r_height = 100 \<rparr>
       \<lparr> minX = 0, minY = 0, maxX = 0, maxY = 0 \<rparr> 50 False 0 0"

section \<open>Command history (core/Command.ts)\<close>

text \<open>
  A command is an object with methods; \<open>'c\<close> is the type of command objects and \<open>'w\<close>
  the rest of the program's state (the document, and the fields of the commands). A
  method of a command is a function on the whole state, the history included, since
  nothing stops a command from calling back into the history; it returns or throws, and
  in both cases leaves a state behind.
\<close>

datatype ('a, 's) outcome = Returns 'a 's | Throws 's

fun state_of :: "('a, 's) outcome \<Rightarrow> 's" where
  "state_of (Returns r s) = s"
| "state_of (Throws s) = s"

record 'c CommandHistory =
  undoStack :: "'c list"
  redoStack :: "'c list"
  maxStackSize :: int
  isExecuting :: bool

type_synonym ('c, 'w) hstate = "'c CommandHistory \<times> 'w"

text \<open>
  The methods of the \<open>Command\<close> interface, dispatched on the command object. A method
  the object lacks (\<open>redo\<close>, \<open>canMerge\<close> and \<open>merge\<close> are optional in the interface) is
  one that throws, as calling \<open>undefined\<close> does.
\<close>

record ('c, 'w) Command =
  c_execute :: "'c \<Rightarrow> ('c, 'w) hstate \<Rightarrow> (unit, ('c, 'w) hstate) outcome"
  c_undo :: "'c \<Rightarrow> ('c, 'w) hstate \<Rightarrow> (unit, ('c, 'w) hstate) outcome"
  c_redo :: "'c \<Rightarrow> ('c, 'w) hstate \<Rightarrow> (unit, ('c, 'w) hstate) outcome"
  c_canMerge :: "'c \<Rightarrow> 'c \<Rightarrow> ('c, 'w) hstate \<Rightarrow> (bool, ('c, 'w) hstate) outcome"
  c_merge :: "'c \<Rightarrow> 'c \<Rightarrow> ('c, 'w) hstate \<Rightarrow> (unit, ('c, 'w) hstate) outcome"
  c_name :: "'c \<Rightarrow> string"

text \<open>The defaults of \<open>BaseCommand\<close>.\<close>

definition BaseCommand_redo ::
  "('c, 'w) Command \<Rightarrow> 'c \<Rightarrow> ('c, 'w) hstate \<Rightarrow> (unit, ('c, 'w) hstate) outcome" where
  "BaseCommand_redo M this s = c_execute M this s"

definition BaseCommand_canMerge :: "'c \<Rightarrow> 'c \<Rightarrow> ('c, 'w) hstate \<Rightarrow> (bool, ('c, 'w) hstate) outcome" where
  "BaseCommand_canMerge this other s = Returns False s"

definition BaseCommand_merge :: "'c \<Rightarrow> 'c \<Rightarrow> ('c, 'w) hstate \<Rightarrow> (unit, ('c, 'w) hstate) outcome" where
  "BaseCommand_merge this other s = Returns () s"

definition CommandHistory_new :: "int \<Rightarrow> 'c CommandHistory" where
  "CommandHistory_new maxSize =
     \<lparr> undoStack = [], redoStack = [], maxStackSize = maxSize, isExecuting = False \<rparr>"

definition set_isExecuting :: "bool \<Rightarrow> ('c, 'w) hstate \<Rightarrow> ('c, 'w) hstate" where
  "set_isExecuting b s = ((fst s) \<lparr> isExecuting := b \<rparr>, snd s)"

text \<open>The \<open>finally\<close> block of \<open>execute\<close>, \<open>undo\<close> and \<open>redo\<close>.\<close>

fun finally_release :: "('a, ('c, 'w) hstate) outcome \<Rightarrow> ('a, ('c, 'w) hstate) outcome" where
  "finally_release (Returns r s) = Returns r (set_isExecuting False s)"
| "finally_release (Throws s) = Throws (set_isExecuting False s)"

text \<open>\<open>undoStack.push(command)\<close>, then \<open>shift()\<close> when the stack is over its size.\<close>

definition push_limited :: "'c \<Rightarrow> 'c CommandHistory \<Rightarrow> 'c CommandHistory" where
  "push_limited command h =
     (let pushed = undoStack h @ [command]
      in h \<lparr> undoStack := (if int (length pushed) > maxStackSize h then tl pushed else pushed) \<rparr>)"

definition clear_redo :: "('c, 'w) hstate \<Rightarrow> ('c, 'w) hstate" where
  "clear_redo s = ((fst s) \<lparr> redoStack := [] \<rparr>, snd s)"

text \<open>The \<open>try\<close> block of \<open>execute\<close>, entered with the guard set.\<close>

definition execute_body ::
  "('c, 'w) Command \<Rightarrow> 'c \<Rightarrow> ('c, 'w) hstate \<Rightarrow> (unit, ('c, 'w) hstate) outcome" where
  "execute_body M command s =
     (case c_execute M command s of
        Throws s1 \<Rightarrow> Throws s1
      | Returns _ s1 \<Rightarrow>
          (case undoStack (fst s1) of
             [] \<Rightarrow> Returns () (clear_redo (push_limited command (fst s1), snd s1))
           | _ # _ \<Rightarrow>
               (let lastCommand = last (undoStack (fst s1))
                in case c_canMerge M lastCommand command s1 of
                     Throws s2 \<Rightarrow> Throws s2
                   | Returns True s2 \<Rightarrow>
                       (case c_merge M lastCommand command s2 of
                          Throws s3 \<Rightarrow> Throws s3
                        | Returns _ s3 \<Rightarrow> Returns () (clear_redo s3))
                   | Returns False s2 \<Rightarrow>
                       Returns () (clear_redo (push_limited command (fst s2), snd s2)))))"

definition execute ::
  "('c, 'w) Command \<Rightarrow> 'c \<Rightarrow> ('c, 'w) hstate \<Rightarrow> (unit, ('c, 'w) hstate) outcome" where
  "execute M command s =
     (if isExecuting (fst s) then Returns () s
      else finally_release (execute_body M command (set_isExecuting True s)))"

definition undo :: "('c, 'w) Command \<Rightarrow> ('c, 'w) hstate \<Rightarrow> (bool, ('c, 'w) hstate) outcome" where
  "undo M s =
     (if length (undoStack (fst s)) = 0 \<or> isExecuting (fst s) then Returns False s
      else
        finally_release
          (let s1 = set_isExecuting True s;
               command = last (undoStack (fst s1));
               s2 = ((fst s1) \<lparr> undoStack := butlast (undoStack (fst s1)) \<rparr>, snd s1)
           in case c_undo M command s2 of
                Throws s3 \<Rightarrow> Throws s3
              | Returns _ s3 \<Rightarrow>
                  Returns True ((fst s3) \<lparr> redoStack := redoStack (fst s3) @ [command] \<rparr>, snd s3)))"

definition redo :: "('c, 'w) Command \<Rightarrow> ('c, 'w) hstate \<Rightarrow> (bool, ('c, 'w) hstate) outcome" where
  "redo M s =
     (if length (redoStack (fst s)) = 0 \<or> isExecuting (fst s) then Returns False s
      else
        finally_release
          (let s1 = set_isExecuting True s;
               command = last (redoStack (fst s1));
               s2 = ((fst s1) \<lparr> redoStack := butlast (redoStack (fst s1)) \<rparr>, snd s1)
           in case c_redo M command s2 of
                Throws s3 \<Rightarrow> Throws s3
              | Returns _ s3 \<Rightarrow>
                  Returns True ((fst s3) \<lparr> undoStack := undoStack (fst s3) @ [command] \<rparr>, snd s3)))"

definition clear :: "'c CommandHistory \<Rightarrow> 'c CommandHistory" where
  "clear h = h \<lparr> undoStack := [], redoStack := [] \<rparr>"

definition canUndo :: "'c CommandHistory \<Rightarrow> bool" where
  "canUndo h = (length (undoStack h) > 0 \<and> \<not> isExecuting h)"

definition canRedo :: "'c CommandHistory \<Rightarrow> bool" where
  "canRedo h = (length (redoStack h) > 0 \<and> \<not> isExecuting h)"

definition undoStackSize :: "'c CommandHistory \<Rightarrow> nat" where
  "undoStackSize h = length (undoStack h)"

definition redoStackSize :: "'c CommandHistory \<Rightarrow> nat" where
  "redoStackSize h = length (redoStack h)"

datatype direction = Undo | Redo

definition getHistory :: "('c, 'w) Command \<Rightarrow> 'c CommandHistory \<Rightarrow> (string \<times> direction) list" where
  "getHistory M h =
     map (\<lambda>cmd. (c_name M cmd, Undo)) (undoStack h) @ map (\<lambda>cmd. (c_name M cmd, Redo)) (redoStack h)"

subsection \<open>Concrete commands\<close>

text \<open>
  Commands that add their number to a counter; a command merges into another of the same
  number, and command 13 throws from \<open>execute\<close> after changing the counter.
\<close>

definition counter_commands :: "(nat, int) Command" where
  "counter_commands =
     \<lparr> c_execute = (\<lambda>c s. if c = 13 then Throws (fst s, snd s - 1) else Returns () (fst s, snd s + int c)),
       c_undo = (\<lambda>c s. Returns () (fst s, snd s - int c)),
       c_redo = (\<lambda>c s. Returns () (fst s, snd s + int c)),
       c_canMerge = (\<lambda>c other s. Returns (c = other) s),
       c_merge = (\<lambda>c other s. Returns () (fst s, snd s * 2)),
       c_name = (\<lambda>c. ''add'') \<rparr>"

definition busy_history :: "nat CommandHistory" where
  "busy_history = \<lparr> undoStack = [1, 2], redoStack = [3], maxStackSize = 2, isExecuting = True \<rparr>"

definition idle_history :: "nat CommandHistory" where
  "idle_history = \<lparr> undoStack = [1, 2], redoStack = [3], maxStackSize = 2, isExecuting = False \<rparr>"

section \<open>Node tree (core/MindNode.ts, utils/helpers.ts, utils/constants.ts)\<close>

subsection \<open>JavaScript values\<close>

text \<open>
  The values that a node's text, style and data hold. An object nested in a value is an
  association list of its own enumerable properties.
\<close>

datatype jsval =
    JUndefined
  | JNull
  | JBool bool
  | JNum real
  | JStr string
  | JDate real
  | JArr "jsval list"
  | JObj "(string \<times> jsval) list"

text \<open>What \<open>||\<close> and \<open>if\<close> take for true.\<close>

fun truthy :: "jsval \<Rightarrow> bool" where
  "truthy JUndefined = False"
| "truthy JNull = False"
| "truthy (JBool b) = b"
| "truthy (JNum n) = (n \<noteq> 0)"
| "truthy (JStr s) = (s \<noteq> [])"
| "truthy (JDate t) = True"
| "truthy (JArr xs) = True"
| "truthy (JObj kvs) = True"

text \<open>
  \<open>deepClone\<close> (helpers.ts): \<open>null\<close> and non-objects are returned as they are, a Date is
  rebuilt from its time, an array is mapped, an object is copied key by key.
\<close>

fun deepClone :: "jsval \<Rightarrow> jsval" where
  "deepClone JUndefined = JUndefined"
| "deepClone JNull = JNull"
| "deepClone (JBool b) = JBool b"
| "deepClone (JNum n) = JNum n"
| "deepClone (JStr s) = JStr s"
| "deepClone (JDate t) = JDate t"
| "deepClone (JArr xs) = JArr (map deepClone xs)"
| "deepClone (JObj kvs) = JObj (map (\<lambda>kv. (fst kv, deepClone (snd kv))) kvs)"

text \<open>
  A style or data object at the top level is a finite map from property names to
  values; \<open>deepClone\<close> of it copies every own property.
\<close>

type_synonym js_object = "string \<rightharpoonup> jsval"

definition deepClone_object :: "js_object \<Rightarrow> js_object" where
  "deepClone_object obj = (\<lambda>key. map_option deepClone (obj key))"

type_synonym NodeStyle = js_object

definition font_family_default :: string where
  "font_family_default =
     ''-apple-system, BlinkMacSystemFont, '' @ CHR 0x22 # ''Segoe UI'' @ CHR 0x22 # '', Roboto, sans-serif''"

definition DEFAULT_NODE_STYLE :: NodeStyle where
  "DEFAULT_NODE_STYLE = map_of
     [(''backgroundColor'', JStr ''#ffffff''),
      (''borderColor'', JStr ''#3b82f6''),
      (''textColor'', JStr ''#1f2937''),
      (''borderWidth'', JNum 2),
      (''borderStyle'', JStr ''solid''),
      (''borderRadius'', JNum 4),
      (''shape'', JStr ''rounded''),
      (''width'', JStr ''auto''),
      (''height'', JStr ''auto''),
      (''padding'', JArr [JNum 12, JNum 20, JNum 12, JNum 20]),
      (''fontSize'', JNum 14),
      (''fontFamily'', JStr font_family_default),
      (''fontWeight'', JStr ''400''),
      (''fontStyle'', JStr ''normal''),
      (''textAlign'', JStr ''center''),
      (''textDecoration'', JStr ''none''),
      (''opacity'', JNum 1)]"

text \<open>\<open>Object.assign(result, style)\<close>: the properties of \<open>style\<close> override.\<close>

definition Object_assign :: "js_object \<Rightarrow> js_object \<Rightarrow> js_object" where
  "Object_assign target source = target ++ source"

definition mergeStyle :: "NodeStyle option list \<Rightarrow> NodeStyle" where
  "mergeStyle styles =
     fold (\<lambda>style result. case style of None \<Rightarrow> result | Some st \<Rightarrow> Object_assign result st)
       styles DEFAULT_NODE_STYLE"

subsection \<open>Plain node data\<close>

text \<open>
  \<open>Partial<NodeData>\<close>: every property may be absent. The scalar properties are grouped
  in a record, the recursive \<open>children\<close> property stands beside it.
\<close>

record NodeFields =
  d_id :: "string option"
  d_text :: "jsval option"
  d_style :: "NodeStyle option"
  d_expanded :: "bool option"
  d_selected :: "bool option"
  d_hidden :: "bool option"
  d_tags :: "string list option"
  d_type :: "string option"
  d_data :: "js_object option"
  d_x :: "real option"
  d_y :: "real option"
  d_width :: "real option"
  d_height :: "real option"

datatype NodeData = NodeData NodeFields "NodeData list option"

fun d_fields :: "NodeData \<Rightarrow> NodeFields" where
  "d_fields (NodeData f ch) = f"

fun d_children :: "NodeData \<Rightarrow> NodeData list option" where
  "d_children (NodeData f ch) = ch"

definition no_fields :: NodeFields where
  "no_fields =
     \<lparr> d_id = None, d_text = None, d_style = None, d_expanded = None, d_selected = None,
       d_hidden = None, d_tags = None, d_type = None, d_data = None, d_x = None, d_y = None,
       d_width = None, d_height = None \<rparr>"

subsection \<open>Node objects and the store\<close>

type_synonym addr = nat

text \<open>
  A \<open>MindNode\<close> object. \<open>children\<close> and \<open>parent\<close> hold references to other node
  objects, which are addresses of the store. Text, style, data and tags are held by
  value: two nodes hold the same style when their styles are equal. The cached
  \<open>_rect\<close> and \<open>_centerPoint\<close> are left out: no operation modelled here reads them.
\<close>

record MindNode =
  n_id :: string
  n_text :: jsval
  children :: "addr list"
  parent :: "addr option"
  style :: NodeStyle
  n_data :: js_object
  expanded :: bool
  selected :: bool
  hidden :: bool
  tags :: "string list"
  n_type :: "string option"
  n_x :: real
  n_y :: real
  n_width :: real
  n_height :: real

text \<open>
  The store: the node objects by address, the next address \<open>new\<close> hands out, and the
  environment that \<open>generateId\<close> reads: the texts of \<open>Date.now()\<close> and of
  \<open>Math.random().toString(36).substr(2, 9)\<close> at its successive calls, and the number
  of calls made so far.
\<close>

record store =
  heap :: "addr \<Rightarrow> MindNode"
  next_addr :: addr
  entropy :: "nat \<Rightarrow> string \<times> string"
  used :: nat

definition generateId :: "string \<Rightarrow> store \<Rightarrow> string \<times> store" where
  "generateId prefix s =
     (prefix @ ''_'' @ fst (entropy s (used s)) @ ''_'' @ snd (entropy s (used s)),
      s \<lparr> used := Suc (used s) \<rparr>)"

definition update_node :: "addr \<Rightarrow> (MindNode \<Rightarrow> MindNode) \<Rightarrow> store \<Rightarrow> store" where
  "update_node a f s = s \<lparr> heap := (heap s) (a := f (heap s a)) \<rparr>"

text \<open>The default text, three CJK characters, as UTF-8 bytes.\<close>

definition DEFAULT_TEXT :: jsval where
  "DEFAULT_TEXT = JStr [CHR 0xE6, CHR 0x96, CHR 0xB0, CHR 0xE8, CHR 0x8A, CHR 0x82,
                        CHR 0xE7, CHR 0x82, CHR 0xB9]"

text \<open>
  The constructor up to its last statement: the object is allocated and its fields are
  set from the data, with no children yet.
\<close>

definition init_node :: "NodeFields \<Rightarrow> store \<Rightarrow> addr \<times> store" where
  "init_node f s =
     (let this = next_addr s;
          s0 = s \<lparr> next_addr := Suc this \<rparr>;
          (i, s1) = (case d_id f of
                       Some v \<Rightarrow> if v \<noteq> [] then (v, s0) else generateId ''node'' s0
                     | None \<Rightarrow> generateId ''node'' s0);
          node = \<lparr> n_id = i,
                   n_text = (case d_text f of
                               Some t \<Rightarrow> if truthy t then t else DEFAULT_TEXT
                             | None \<Rightarrow> DEFAULT_TEXT),
                   children = [],
                   parent = None,
                   style = mergeStyle [Some DEFAULT_NODE_STYLE, d_style f],
                   n_data = (case d_data f of Some obj \<Rightarrow> obj | None \<Rightarrow> Map.empty),
                   expanded = (d_expanded f \<noteq> Some False),
                   selected = (case d_selected f of Some b \<Rightarrow> b | None \<Rightarrow> False),
                   hidden = (case d_hidden f of Some b \<Rightarrow> b | None \<Rightarrow> False),
                   tags = (case d_tags f of Some ts \<Rightarrow> ts | None \<Rightarrow> []),
                   n_type = d_type f,
                   n_x = js_or (d_x f) 0,
                   n_y = js_or (d_y f) 0,
                   n_width = js_or (d_width f) 0,
                   n_height = js_or (d_height f) 0 \<rparr>
      in (this, s1 \<lparr> heap := (heap s1) (this := node) \<rparr>))"

text \<open>
  \<open>new MindNode(data)\<close>; \<open>new_children\<close> is the \<open>map\<close> over \<open>data.children\<close>, which
  builds each child and sets its parent.
\<close>

fun MindNode_new :: "NodeData \<Rightarrow> store \<Rightarrow> addr \<times> store"
  and new_children :: "NodeData list \<Rightarrow> addr \<Rightarrow> store \<Rightarrow> addr list \<times> store" where
  "MindNode_new (NodeData f None) s = init_node f s"
| "MindNode_new (NodeData f (Some ds)) s =
     (case init_node f s of
        (this, s1) \<Rightarrow>
          (case new_children ds this s1 of
             (kids, s2) \<Rightarrow> (this, update_node this (\<lambda>n. n \<lparr> children := kids \<rparr>) s2)))"
| "new_children [] this s = ([], s)"
| "new_children (d # ds) this s =
     (case MindNode_new d s of
        (child, s1) \<Rightarrow>
          (case new_children ds this (update_node child (\<lambda>n. n \<lparr> parent := Some this \<rparr>) s1) of
             (kids, s2) \<Rightarrow> (child # kids, s2)))"

subsection \<open>Structure\<close>

text \<open>\<open>findIndex\<close> and \<open>indexOf\<close>: \<open>None\<close> stands for -1.\<close>

fun findIndex :: "('a \<Rightarrow> bool) \<Rightarrow> 'a list \<Rightarrow> nat option" where
  "findIndex P [] = None"
| "findIndex P (x # xs) = (if P x then Some 0 else map_option Suc (findIndex P xs))"

definition indexOf :: "'a \<Rightarrow> 'a list \<Rightarrow> nat option" where
  "indexOf v xs = findIndex (\<lambda>x. x = v) xs"

text \<open>
  The \<open>descendants\<close> getter: every child is listed, followed by its own descendants.
  The first argument bounds the depth of the recursion of \<open>traverse\<close>, and \<open>None\<close> is
  a recursion cut off by the bound.
\<close>

fun sequence :: "'a option list \<Rightarrow> 'a list option" where
  "sequence [] = Some []"
| "sequence (x # xs) =
     (case x of None \<Rightarrow> None
      | Some v \<Rightarrow> (case sequence xs of None \<Rightarrow> None | Some vs \<Rightarrow> Some (v # vs)))"

fun descendants :: "nat \<Rightarrow> addr \<Rightarrow> store \<Rightarrow> addr list option" where
  "descendants 0 this s = None"
| "descendants (Suc k) this s =
     map_option concat
       (sequence (map (\<lambda>child. map_option ((#) child) (descendants k child s))
                      (children (heap s this))))"

text \<open>
  \<open>addChild(data, index)\<close>: the argument is a plain record (\<open>Inl\<close>) or a node
  (\<open>Inr\<close>); the index is an integer or absent.
\<close>

definition addChild :: "NodeData + addr \<Rightarrow> int option \<Rightarrow> addr \<Rightarrow> store \<Rightarrow> addr \<times> store" where
  "addChild arg index this s =
     (case (case arg of Inr node \<Rightarrow> (node, s) | Inl d \<Rightarrow> MindNode_new d s) of
        (child, s1) \<Rightarrow>
          (let s2 = update_node child (\<lambda>n. n \<lparr> parent := Some this \<rparr>) s1;
               cs = children (heap s2 this)
           in (child,
               (case index of
                  Some i \<Rightarrow>
                    if 0 \<le> i \<and> i \<le> int (length cs)
                    then update_node this
                           (\<lambda>n. n \<lparr> children := take (nat i) cs @ [child] @ drop (nat i) cs \<rparr>) s2
                    else update_node this (\<lambda>n. n \<lparr> children := cs @ [child] \<rparr>) s2
                | None \<Rightarrow> update_node this (\<lambda>n. n \<lparr> children := cs @ [child] \<rparr>) s2))))"

text \<open>\<open>removeChild(child)\<close>: the argument is a node (\<open>Inl\<close>) or an id (\<open>Inr\<close>).\<close>

definition removeChild :: "addr + string \<Rightarrow> addr \<Rightarrow> store \<Rightarrow> bool \<times> store" where
  "removeChild child this s =
     (let cs = children (heap s this);
          index = (case child of
                     Inr i \<Rightarrow> findIndex (\<lambda>c. n_id (heap s c) = i) cs
                   | Inl c \<Rightarrow> indexOf c cs)
      in case index of
           None \<Rightarrow> (False, s)
         | Some i \<Rightarrow>
             (let removedChild = cs ! i;
                  s1 = update_node removedChild (\<lambda>n. n \<lparr> parent := None \<rparr>) s;
                  cs1 = children (heap s1 this)
              in (True, update_node this (\<lambda>n. n \<lparr> children := take i cs1 @ drop (Suc i) cs1 \<rparr>) s1)))"

definition removeAllChildren :: "addr \<Rightarrow> store \<Rightarrow> store" where
  "removeAllChildren this s =
     update_node this (\<lambda>n. n \<lparr> children := [] \<rparr>)
       (fold (\<lambda>child. update_node child (\<lambda>n. n \<lparr> parent := None \<rparr>)) (children (heap s this)) s)"

definition remove :: "addr \<Rightarrow> store \<Rightarrow> bool \<times> store" where
  "remove this s =
     (case parent (heap s this) of
        Some p \<Rightarrow> removeChild (Inl this) p s
      | None \<Rightarrow> (False, s))"

text \<open>
  The loop of \<open>isDescendantOf\<close>, which follows parent references; it does not return on
  a chain of parents that is a cycle without \<open>node\<close>, and then its value is \<open>None\<close>.
\<close>

partial_function (option) isDescendantOf_loop :: "store \<Rightarrow> addr \<Rightarrow> addr option \<Rightarrow> bool option" where
  "isDescendantOf_loop s node current =
     (case current of
        None \<Rightarrow> Some False
      | Some c \<Rightarrow> if c = node then Some True else isDescendantOf_loop s node (parent (heap s c)))"

definition isDescendantOf :: "addr \<Rightarrow> addr \<Rightarrow> store \<Rightarrow> bool option" where
  "isDescendantOf node this s = isDescendantOf_loop s node (parent (heap s this))"

definition isAncestorOf :: "addr \<Rightarrow> addr \<Rightarrow> store \<Rightarrow> bool option" where
  "isAncestorOf node this s = isDescendantOf this node s"

definition moveTo :: "addr \<Rightarrow> int option \<Rightarrow> addr \<Rightarrow> store \<Rightarrow> (bool \<times> store) option" where
  "moveTo newParent index this s =
     (if newParent = this then Some (False, s)
      else
        (case isDescendantOf this newParent s of
           None \<Rightarrow> None
         | Some True \<Rightarrow> Some (False, s)
         | Some False \<Rightarrow>
             (let s1 = (case parent (heap s this) of
                          Some p \<Rightarrow> snd (removeChild (Inl this) p s)
                        | None \<Rightarrow> s)
              in Some (True, snd (addChild (Inr this) index newParent s1)))))"

subsection \<open>Tags\<close>

definition addTag :: "string \<Rightarrow> addr \<Rightarrow> store \<Rightarrow> store" where
  "addTag tag this s =
     (if tag \<notin> set (tags (heap s this))
      then update_node this (\<lambda>n. n \<lparr> tags := tags n @ [tag] \<rparr>) s
      else s)"

definition removeTag :: "string \<Rightarrow> addr \<Rightarrow> store \<Rightarrow> store" where
  "removeTag tag this s =
     (case indexOf tag (tags (heap s this)) of
        Some i \<Rightarrow> update_node this (\<lambda>n. n \<lparr> tags := take i (tags n) @ drop (Suc i) (tags n) \<rparr>) s
      | None \<Rightarrow> s)"

definition hasTag :: "string \<Rightarrow> addr \<Rightarrow> store \<Rightarrow> bool" where
  "hasTag tag this s = (tag \<in> set (tags (heap s this)))"

subsection \<open>Serialisation and cloning\<close>

text \<open>
  \<open>toJSON\<close> recurses through the children references; the first argument bounds the
  depth of the recursion, and \<open>None\<close> is a recursion cut off by the bound.
\<close>

definition toJSON_fields :: "MindNode \<Rightarrow> NodeFields" where
  "toJSON_fields n =
     \<lparr> d_id = Some (n_id n),
       d_text = Some (deepClone (n_text n)),
       d_style = Some (deepClone_object (style n)),
       d_expanded = Some (expanded n),
       d_selected = Some (selected n),
       d_hidden = Some (hidden n),
       d_tags = Some (tags n),
       d_type = (case n_type n of Some t \<Rightarrow> if t \<noteq> [] then Some t else None | None \<Rightarrow> None),
       d_data = Some (deepClone_object (n_data n)),
       d_x = None, d_y = None, d_width = None, d_height = None \<rparr>"

fun toJSON :: "nat \<Rightarrow> addr \<Rightarrow> store \<Rightarrow> NodeData option" where
  "toJSON 0 this s = None"
| "toJSON (Suc k) this s =
     (if length (children (heap s this)) > 0
      then (case sequence (map (\<lambda>child. toJSON k child s) (children (heap s this))) of
              None \<Rightarrow> None
            | Some ds \<Rightarrow> Some (NodeData (toJSON_fields (heap s this)) (Some ds)))
      else Some (NodeData (toJSON_fields (heap s this)) None))"

definition fromJSON :: "NodeData \<Rightarrow> store \<Rightarrow> addr \<times> store" where
  "fromJSON d s = MindNode_new d s"

definition clone :: "nat \<Rightarrow> bool \<Rightarrow> addr \<Rightarrow> store \<Rightarrow> (addr \<times> store) option" where
  "clone k includeChildren this s =
     (case toJSON k this s of
        None \<Rightarrow> None
      | Some (NodeData f ch) \<Rightarrow>
          (let ch1 = (if \<not> includeChildren then None else ch)
           in case generateId ''node'' s of
                (i, s1) \<Rightarrow> Some (MindNode_new (NodeData (f \<lparr> d_id := Some i \<rparr>) ch1) s1)))"

subsection \<open>Concrete trees\<close>

definition blank_node :: MindNode where
  "blank_node =
     \<lparr> n_id = [], n_text = JUndefined, children = [], parent = None, style = Map.empty,
       n_data = Map.empty, expanded = False, selected = False, hidden = False, tags = [],
       n_type = None, n_x = 0, n_y = 0, n_width = 0, n_height = 0 \<rparr>"

text \<open>A store with no node of interest, whose next free address is 10.\<close>

definition empty_store :: store where
  "empty_store =
     \<lparr> heap = (\<lambda>a. blank_node), next_addr = 10,
       entropy = (\<lambda>k. (''1700000000000'', ''k3j9x2m1q'')), used = 0 \<rparr>"

definition leaf :: "string \<Rightarrow> NodeData" where
  "leaf i = NodeData (no_fields \<lparr> d_id := Some i \<rparr>) None"

text \<open>
  A root with the children a and b, where a has the child c; built in the empty store,
  the root is node 10, a is 11, c is 12 and b is 13.
\<close>

definition sample_data :: NodeData where
  "sample_data =
     NodeData (no_fields \<lparr> d_id := Some ''root'' \<rparr>)
       (Some [NodeData (no_fields \<lparr> d_id := Some ''a'' \<rparr>) (Some [leaf ''c'']), leaf ''b''])"

definition sample_tree :: store where
  "sample_tree = snd (MindNode_new sample_data empty_store)"

definition duplicate_tags_data :: NodeData where
  "duplicate_tags_data = NodeData (no_fields \<lparr> d_tags := Some [''x'', ''x''] \<rparr>) None"

definition empty_type_data :: NodeData where
  "empty_type_data = NodeData (no_fields \<lparr> d_id := Some ''n'', d_type := Some [] \<rparr>) None"

definition empty_type_store :: store where
  "empty_type_store = snd (MindNode_new empty_type_data empty_store)"

subsection \<open>Vocabulary of the claims\<close>

text \<open>
  \<open>has_root s a\<close>: the parent references from \<open>a\<close> end at a node without parent.
  \<open>is_ancestor s n a\<close>: \<open>n\<close> is reached from \<open>a\<close> by one or more parent references,
  that is, \<open>a\<close> is a descendant of \<open>n\<close>.
\<close>

inductive has_root :: "store \<Rightarrow> addr \<Rightarrow> bool" for s where
  root: "parent (heap s a) = None \<Longrightarrow> has_root s a"
| step: "parent (heap s a) = Some q \<Longrightarrow> has_root s q \<Longrightarrow> has_root s a"

inductive is_ancestor :: "store \<Rightarrow> addr \<Rightarrow> addr \<Rightarrow> bool" for s n where
  direct: "parent (heap s a) = Some n \<Longrightarrow> is_ancestor s n a"
| above: "parent (heap s a) = Some q \<Longrightarrow> is_ancestor s n q \<Longrightarrow> is_ancestor s n a"

text \<open>Sequences of \<open>addTag\<close> and \<open>removeTag\<close> calls on one node.\<close>

datatype tag_call = AddTag string | RemoveTag string

fun tag_step :: "addr \<Rightarrow> tag_call \<Rightarrow> store \<Rightarrow> store" where
  "tag_step this (AddTag t) s = addTag t this s"
| "tag_step this (RemoveTag t) s = removeTag t this s"

definition tag_run :: "addr \<Rightarrow> tag_call list \<Rightarrow> store \<Rightarrow> store" where
  "tag_run this cs s = fold (tag_step this) cs s"


text \<open>
  Where \<open>addChild\<close> puts the child in a list of \<open>k\<close> children: at the index when
  it lies in \<open>[0, k]\<close>, at the end otherwise.
\<close>

definition insert_position :: "int option \<Rightarrow> nat \<Rightarrow> nat" where
  "insert_position index k =
     (case index of Some i \<Rightarrow> if 0 \<le> i \<and> i \<le> int k then nat i else k | None \<Rightarrow> k)"

text \<open>A node without its references to other nodes.\<close>

definition without_links :: "MindNode \<Rightarrow> MindNode" where
  "without_links n = n \<lparr> children := [], parent := None \<rparr>"

text \<open>The first step of \<open>moveTo\<close>: the node is removed from its parent, if it has one.\<close>

definition detached :: "addr \<Rightarrow> store \<Rightarrow> store" where
  "detached n s = (case parent (heap s n) of Some q \<Rightarrow> snd (removeChild (Inl n) q s) | None \<Rightarrow> s)"


subsection \<open>The tree of values under a node\<close>

text \<open>
  What a node holds apart from its references and its geometry (which \<open>toJSON\<close> does
  not write): the values that a node and a copy of it are compared by.
\<close>

record NodeValues =
  v_id :: string
  v_text :: jsval
  v_style :: NodeStyle
  v_data :: js_object
  v_expanded :: bool
  v_selected :: bool
  v_hidden :: bool
  v_tags :: "string list"
  v_type :: "string option"

definition values_of :: "MindNode \<Rightarrow> NodeValues" where
  "values_of n =
     \<lparr> v_id = n_id n, v_text = n_text n, v_style = style n, v_data = n_data n,
       v_expanded = expanded n, v_selected = selected n, v_hidden = hidden n,
       v_tags = tags n, v_type = n_type n \<rparr>"

datatype vtree = VTree NodeValues "vtree list"

text \<open>
  \<open>tree_at A s par a t\<close>: in the store \<open>s\<close> the node \<open>a\<close> has the parent \<open>par\<close>, and
  the nodes reached from \<open>a\<close> through \<open>children\<close> form the tree \<open>t\<close>: they hold its
  values, in its order, each child has its parent as \<open>parent\<close>, and all of them are
  nodes of \<open>A\<close>, no node below itself.
\<close>

fun tree_at :: "addr set \<Rightarrow> store \<Rightarrow> addr option \<Rightarrow> addr \<Rightarrow> vtree \<Rightarrow> bool"
  and trees_at :: "addr set \<Rightarrow> store \<Rightarrow> addr option \<Rightarrow> addr list \<Rightarrow> vtree list \<Rightarrow> bool" where
  "tree_at A s par a (VTree v kids) =
     (a \<in> A \<and> parent (heap s a) = par \<and> values_of (heap s a) = v
      \<and> trees_at (A - {a}) s (Some a) (children (heap s a)) kids)"
| "trees_at A s par cs [] = (cs = [])"
| "trees_at A s par cs (k # ks) =
     (case cs of [] \<Rightarrow> False | c # cs' \<Rightarrow> tree_at A s par c k \<and> trees_at A s par cs' ks)"

text \<open>
  The values the constructor stores for a record, given the environment of
  \<open>generateId\<close> and the number of calls made; and the tree it builds.
\<close>

definition init_values :: "NodeFields \<Rightarrow> (nat \<Rightarrow> string \<times> string) \<Rightarrow> nat \<Rightarrow> NodeValues \<times> nat" where
  "init_values f e u =
     (let generated = ''node'' @ ''_'' @ fst (e u) @ ''_'' @ snd (e u);
          given = (case d_id f of Some v \<Rightarrow> v \<noteq> [] | None \<Rightarrow> False)
      in (\<lparr> v_id = (if given then the (d_id f) else generated),
            v_text = (case d_text f of
                        Some t \<Rightarrow> if truthy t then t else DEFAULT_TEXT
                      | None \<Rightarrow> DEFAULT_TEXT),
            v_style = mergeStyle [Some DEFAULT_NODE_STYLE, d_style f],
            v_data = (case d_data f of Some obj \<Rightarrow> obj | None \<Rightarrow> Map.empty),
            v_expanded = (d_expanded f \<noteq> Some False),
            v_selected = (case d_selected f of Some b \<Rightarrow> b | None \<Rightarrow> False),
            v_hidden = (case d_hidden f of Some b \<Rightarrow> b | None \<Rightarrow> False),
            v_tags = (case d_tags f of Some ts \<Rightarrow> ts | None \<Rightarrow> []),
            v_type = d_type f \<rparr>,
          if given then u else Suc u))"

fun built :: "NodeData \<Rightarrow> (nat \<Rightarrow> string \<times> string) \<Rightarrow> nat \<Rightarrow> vtree \<times> nat"
  and built_list :: "NodeData list \<Rightarrow> (nat \<Rightarrow> string \<times> string) \<Rightarrow> nat \<Rightarrow> vtree list \<times> nat" where
  "built (NodeData f None) e u = (VTree (fst (init_values f e u)) [], snd (init_values f e u))"
| "built (NodeData f (Some ds)) e u =
     (case built_list ds e (snd (init_values f e u)) of
        (kids, u1) \<Rightarrow> (VTree (fst (init_values f e u)) kids, u1))"
| "built_list [] e u = ([], u)"
| "built_list (d # ds) e u =
     (case built d e u of
        (k, u1) \<Rightarrow> (case built_list ds e u1 of (ks, u2) \<Rightarrow> (k # ks, u2)))"

text \<open>The record \<open>toJSON\<close> writes for a tree of values.\<close>

definition json_fields :: "NodeValues \<Rightarrow> NodeFields" where
  "json_fields v =
     \<lparr> d_id = Some (v_id v),
       d_text = Some (deepClone (v_text v)),
       d_style = Some (deepClone_object (v_style v)),
       d_expanded = Some (v_expanded v),
       d_selected = Some (v_selected v),
       d_hidden = Some (v_hidden v),
       d_tags = Some (v_tags v),
       d_type = (case v_type v of Some t \<Rightarrow> if t \<noteq> [] then Some t else None | None \<Rightarrow> None),
       d_data = Some (deepClone_object (v_data v)),
       d_x = None, d_y = None, d_width = None, d_height = None \<rparr>"

fun json_of :: "vtree \<Rightarrow> NodeData" where
  "json_of (VTree v kids) =
     NodeData (json_fields v) (if kids = [] then None else Some (map json_of kids))"

fun height :: "vtree \<Rightarrow> nat" where
  "height (VTree v kids) = Suc (fold max (map height kids) 0)"

text \<open>
  A tree as the constructor leaves it: ids are not empty, texts are truthy and styles
  hold the defaults.
\<close>

fun constructor_normal :: "vtree \<Rightarrow> bool" where
  "constructor_normal (VTree v kids) =
     (v_id v \<noteq> [] \<and> truthy (v_text v)
      \<and> mergeStyle [Some DEFAULT_NODE_STYLE, Some (v_style v)] = v_style v
      \<and> list_all constructor_normal kids)"

text \<open>The same tree with every empty type string read as no type.\<close>

fun drop_empty_types :: "vtree \<Rightarrow> vtree" where
  "drop_empty_types (VTree v kids) =
     VTree (v \<lparr> v_type := (if v_type v = Some [] then None else v_type v) \<rparr>)
       (map drop_empty_types kids)"

fun ids_of :: "vtree \<Rightarrow> string list" where
  "ids_of (VTree v kids) = v_id v # concat (map ids_of kids)"

text \<open>The tree of values of the sample tree.\<close>

definition sample_values :: vtree where
  "sample_values = fst (built sample_data (entropy empty_store) (used empty_store))"
section \<open>Viewport: theorems\<close>

lemma js_or_nonzero: "d \<noteq> 0 \<Longrightarrow> js_or a d \<noteq> 0"
  by (simp add: js_or_def split: option.splits)

lemma js_or_zero: "js_or (Some 0) d = js_or None d"
  by (simp add: js_or_def)

lemma Viewport_new_zero_eq:
  "Viewport_new (options \<lparr> o_minScale := Some 0 \<rparr>) = Viewport_new (options \<lparr> o_minScale := None \<rparr>)"
  "Viewport_new (options \<lparr> o_maxScale := Some 0 \<rparr>) = Viewport_new (options \<lparr> o_maxScale := None \<rparr>)"
  "Viewport_new (options \<lparr> o_zoomSpeed := Some 0 \<rparr>) = Viewport_new (options \<lparr> o_zoomSpeed := None \<rparr>)"
  "Viewport_new (options \<lparr> o_initialScale := Some 0 \<rparr>) = Viewport_new (options \<lparr> o_initialScale := None \<rparr>)"
  by (simp_all add: Viewport_new_def js_or_zero)

lemma Viewport_new_zero_values:
  "minScale (Viewport_new (options \<lparr> o_minScale := Some 0 \<rparr>)) = 1 / 10"
  "maxScale (Viewport_new (options \<lparr> o_maxScale := Some 0 \<rparr>)) = 5"
  "zoomSpeed (Viewport_new (options \<lparr> o_zoomSpeed := Some 0 \<rparr>)) = 1 / 10"
  "scale (transform (Viewport_new (options \<lparr> o_initialScale := Some 0 \<rparr>))) = 1"
  by (simp_all add: Viewport_new_def js_or_def)

lemma Viewport_new_nonzero:
  "zoomSpeed (Viewport_new options) \<noteq> 0"
  "scale (transform (Viewport_new options)) \<noteq> 0"
  "minScale (Viewport_new options) \<noteq> 0"
  by (simp_all add: Viewport_new_def js_or_nonzero)

lemma Viewport_new_minScale_pos:
  "(0 < minScale (Viewport_new options)) = (case o_minScale options of None \<Rightarrow> True | Some m \<Rightarrow> 0 \<le> m)"
  by (auto simp: Viewport_new_def js_or_def split: option.splits)

text \<open>
  C10 (as amended). In Viewport construction an option given the value 0 is treated as
  absent: the viewport built is the one built without the option, so \<open>minScale\<close> 0
  becomes 0.1, \<open>maxScale\<close> 0 becomes 5, \<open>zoomSpeed\<close> 0 becomes 0.1 and
  \<open>initialScale\<close> 0 becomes 1. Hence the zoom speed, the initial scale and the lower
  bound of the scale are never zero; the lower bound is strictly positive exactly when the
  \<open>minScale\<close> given is absent or not negative.
\<close>

theorem Viewport_new_zero_option_absent:
  "Viewport_new (options \<lparr> o_minScale := Some 0 \<rparr>) = Viewport_new (options \<lparr> o_minScale := None \<rparr>)
   \<and> Viewport_new (options \<lparr> o_maxScale := Some 0 \<rparr>) = Viewport_new (options \<lparr> o_maxScale := None \<rparr>)
   \<and> Viewport_new (options \<lparr> o_zoomSpeed := Some 0 \<rparr>) = Viewport_new (options \<lparr> o_zoomSpeed := None \<rparr>)
   \<and> Viewport_new (options \<lparr> o_initialScale := Some 0 \<rparr>) = Viewport_new (options \<lparr> o_initialScale := None \<rparr>)
   \<and> minScale (Viewport_new (options \<lparr> o_minScale := Some 0 \<rparr>)) = 1 / 10
   \<and> maxScale (Viewport_new (options \<lparr> o_maxScale := Some 0 \<rparr>)) = 5
   \<and> zoomSpeed (Viewport_new (options \<lparr> o_zoomSpeed := Some 0 \<rparr>)) = 1 / 10
   \<and> scale (transform (Viewport_new (options \<lparr> o_initialScale := Some 0 \<rparr>))) = 1
   \<and> zoomSpeed (Viewport_new options) \<noteq> 0
   \<and> scale (transform (Viewport_new options)) \<noteq> 0
   \<and> minScale (Viewport_new options) \<noteq> 0
   \<and> (0 < minScale (Viewport_new options)) = (case o_minScale options of None \<Rightarrow> True | Some m \<Rightarrow> 0 \<le> m)"
  using Viewport_new_zero_eq [of options] Viewport_new_zero_values [of options]
    Viewport_new_nonzero [of options] Viewport_new_minScale_pos [of options]
  by blast

text \<open>
  The claim as stated fails: a negative \<open>minScale\<close> is truthy, so it is kept and the
  lower bound of the scale is negative.
\<close>

theorem Viewport_new_negative_minScale_counterexample:
  "\<not> 0 < minScale (Viewport_new \<lparr> o_minScale = Some (- 1), o_maxScale = None,
      o_zoomSpeed = None, o_initialScale = None, o_initialPosition = None \<rparr>)"
  by (simp add: Viewport_new_def js_or_def)

lemma clamp_nonzero: "0 < lo \<Longrightarrow> hi \<noteq> 0 \<Longrightarrow> clamp v lo hi \<noteq> 0"
  by (auto simp: clamp_def min_def max_def split: if_splits)

text \<open>
  C7 (as amended). For every viewport whose scale is positive, every delta and every
  surface point A, \<open>zoom(delta, A)\<close> returns, and if it changes the scale to a value
  other than zero then \<open>screenToWorld(A)\<close> after the zoom equals \<open>screenToWorld(A)\<close>
  before it, exactly. The new scale is not zero whenever \<open>minScale\<close> is positive and
  \<open>maxScale\<close> is not zero.
\<close>

theorem zoom_anchored:
  assumes "0 < scale (transform vp)"
  shows "\<exists>vp'. zoom delta (Some A) vp = Some vp'
     \<and> (scale (transform vp') \<noteq> scale (transform vp) \<and> scale (transform vp') \<noteq> 0
          \<longrightarrow> screenToWorld vp A \<noteq> None \<and> screenToWorld vp' A = screenToWorld vp A)
     \<and> (0 < minScale vp \<and> maxScale vp \<noteq> 0 \<longrightarrow> scale (transform vp') \<noteq> 0)"
  using assms
  by (auto simp: zoom_def Let_def screenToWorld_def clamp_nonzero field_simps)


theorem zoom_anchored_witness:
  "0 < scale (transform (Viewport_new default_options))
   \<and> (\<exists>vp'. zoom 1 (Some \<lparr> p_x = 100, p_y = 50 \<rparr>) (Viewport_new default_options) = Some vp'
         \<and> scale (transform vp') = 11 / 10
         \<and> screenToWorld vp' \<lparr> p_x = 100, p_y = 50 \<rparr> = Some \<lparr> p_x = 100, p_y = 50 \<rparr>)"
proof -
  let ?vp = "Viewport_new default_options"
  let ?A = "\<lparr> p_x = 100, p_y = 50 \<rparr>"
  have pos: "0 < scale (transform ?vp)"
    by (simp add: Viewport_new_def default_options_def js_or_def)
  from zoom_anchored [OF pos, of 1 ?A] obtain vp' where
    z: "zoom 1 (Some ?A) ?vp = Some vp'" and
    a: "scale (transform vp') \<noteq> scale (transform ?vp) \<and> scale (transform vp') \<noteq> 0
        \<longrightarrow> screenToWorld ?vp ?A \<noteq> None \<and> screenToWorld vp' ?A = screenToWorld ?vp ?A"
    by blast
  have s: "scale (transform vp') = 11 / 10"
    using z by (auto simp: zoom_def Let_def Viewport_new_def default_options_def js_or_def clamp_def
        split: if_splits)
  have "screenToWorld ?vp ?A = Some ?A"
    by (simp add: screenToWorld_def Viewport_new_def default_options_def js_or_def)
  with a s have "screenToWorld vp' ?A = Some ?A"
    by (simp add: Viewport_new_def default_options_def js_or_def)
  with pos z s show ?thesis by blast
qed

text \<open>
  The claim as stated fails where the new scale is zero, which a negative \<open>minScale\<close>
  allows: from scale 1, \<open>zoom(-10, A)\<close> has factor 0 and the new scale
  \<open>clamp(0, -1, 5) = 0\<close>; the scale has changed and \<open>screenToWorld(A)\<close> then
  divides by zero.
\<close>

theorem zoom_anchored_counterexample:
  "0 < scale (transform negative_min_viewport)
   \<and> zoom (- 10) (Some \<lparr> p_x = 3, p_y = 4 \<rparr>) negative_min_viewport \<noteq> None
   \<and> scale (transform (the (zoom (- 10) (Some \<lparr> p_x = 3, p_y = 4 \<rparr>) negative_min_viewport)))
       \<noteq> scale (transform negative_min_viewport)
   \<and> screenToWorld (the (zoom (- 10) (Some \<lparr> p_x = 3, p_y = 4 \<rparr>) negative_min_viewport))
         \<lparr> p_x = 3, p_y = 4 \<rparr> = None
   \<and> screenToWorld negative_min_viewport \<lparr> p_x = 3, p_y = 4 \<rparr> = Some \<lparr> p_x = 3, p_y = 4 \<rparr>"
  by (simp add: negative_min_viewport_def default_options_def Viewport_new_def js_or_def
      zoom_def Let_def clamp_def screenToWorld_def)

lemma clamp_in_range: "lo \<le> hi \<Longrightarrow> lo \<le> clamp v lo hi \<and> clamp v lo hi \<le> hi"
  by (simp add: clamp_def min_def max_def)

lemma vp_inv_bounds: "vp_inv vp \<Longrightarrow> minScale vp \<le> maxScale vp"
  by (auto simp: vp_inv_def scale_in_range_def)

lemma setTransform_inv:
  assumes "vp_inv vp"
  shows "vp_inv (setTransform nx ny ns False t0 t1 vp)"
proof -
  let ?s = "case ns of Some v \<Rightarrow> clamp v (minScale vp) (maxScale vp) | None \<Rightarrow> scale (transform vp)"
  have r: "scale_in_range vp ?s"
    using assms clamp_in_range [OF vp_inv_bounds [OF assms]]
    by (auto simp: scale_in_range_def vp_inv_def split: option.splits)
  then show ?thesis using assms
    by (auto simp: setTransform_def Let_def applyTransform_def vp_inv_def scale_in_range_def
        split: option.splits)
qed

lemma zoom_inv:
  assumes "vp_inv vp"
  shows "\<exists>vp'. zoom delta center vp = Some vp' \<and> vp_inv vp'"
proof -
  note b = clamp_in_range [OF vp_inv_bounds [OF assms]]
  have z: "scale (transform vp) = 0 \<Longrightarrow> clamp (scale (transform vp) * (1 + delta * zoomSpeed vp)) (minScale vp) (maxScale vp) = scale (transform vp)"
    using assms by (auto simp: vp_inv_def scale_in_range_def clamp_def)
  show ?thesis using assms b z
    by (cases center) (auto simp: zoom_def Let_def vp_inv_def scale_in_range_def split: option.splits)
qed

lemma x_clamp_range:
  "lo \<le> hi \<Longrightarrow> x \<noteq> NaN \<Longrightarrow> \<exists>s. x_clamp x lo hi = Some s \<and> lo \<le> s \<and> s \<le> hi"
  by (cases x) (auto simp: clamp_in_range)

lemma step_inv:
  assumes "vp_inv vp" "call_ok c"
  shows "\<exists>vp'. step c vp = Some vp' \<and> vp_inv vp'"
proof (cases c)
  case (SetTransform nx ny ns animate t0 t1)
  then show ?thesis using assms by (simp add: setTransform_inv)
next
  case (Zoom delta center)
  then show ?thesis using assms by (simp add: zoom_inv)
next
  case (Pan dx dy)
  then show ?thesis using assms
    by (simp add: pan_def Let_def vp_inv_def scale_in_range_def)
next
  case (StartDrag p)
  then show ?thesis using assms by (simp add: startDrag_def vp_inv_def scale_in_range_def)
next
  case (Drag p)
  then show ?thesis using assms by (simp add: drag_def Let_def vp_inv_def scale_in_range_def)
next
  case EndDrag
  then show ?thesis using assms by (simp add: endDrag_def vp_inv_def scale_in_range_def)
next
  case (CenterTo rect p animate t0 t1)
  then show ?thesis using assms by (simp add: centerTo_def Let_def setTransform_inv)
next
  case (FitBounds rect b padding animate t0 t1)
  then obtain s where "x_clamp (x_min (js_div (r_width rect - padding * 2) (maxX b - minX b))
               (js_div (r_height rect - padding * 2) (maxY b - minY b))) (minScale vp) (maxScale vp) = Some s"
    using assms x_clamp_range [OF vp_inv_bounds [OF assms(1)]] by fastforce
  then show ?thesis using assms FitBounds by (simp add: fitBounds_def Let_def setTransform_inv)
next
  case (ResetZoom animate t0 t1)
  then show ?thesis using assms by (simp add: resetZoom_def setTransform_inv)
next
  case (Frame now)
  then show ?thesis using assms by (simp add: frame_def vp_inv_def)
qed

lemma run_inv:
  "vp_inv vp \<Longrightarrow> calls_ok cs \<Longrightarrow> \<exists>vp'. run cs vp = Some vp' \<and> vp_inv vp'"
proof (induction cs arbitrary: vp)
  case Nil
  then show ?case by simp
next
  case (Cons c cs)
  from Cons.prems obtain vp1 where s: "step c vp = Some vp1" "vp_inv vp1"
    using step_inv by fastforce
  from Cons.prems have "calls_ok cs" by simp
  from Cons.IH [OF s(2) this] s(1) show ?case by simp
qed

lemma animate_frame_bounds:
  "minScale (animate_frame a now vp) = minScale vp \<and> maxScale (animate_frame a now vp) = maxScale vp"
  by (simp add: animate_frame_def Let_def applyTransform_def)

lemma setTransform_bounds:
  "minScale (setTransform nx ny ns animate t0 t1 vp) = minScale vp
   \<and> maxScale (setTransform nx ny ns animate t0 t1 vp) = maxScale vp"
  by (simp add: setTransform_def Let_def animateTransform_def animate_frame_bounds applyTransform_def)

lemma step_bounds:
  "step c vp = Some vp' \<Longrightarrow> minScale vp' = minScale vp \<and> maxScale vp' = maxScale vp"
  by (cases c)
    (auto simp: setTransform_bounds zoom_def Let_def pan_def startDrag_def drag_def endDrag_def
      centerTo_def fitBounds_def resetZoom_def frame_def animate_frame_bounds
      split: if_splits option.splits)

lemma run_bounds:
  "run cs vp = Some vp' \<Longrightarrow> minScale vp' = minScale vp \<and> maxScale vp' = maxScale vp"
proof (induction cs arbitrary: vp)
  case Nil
  then show ?case by simp
next
  case (Cons c cs)
  then obtain vp1 where s: "step c vp = Some vp1" "run cs vp1 = Some vp'"
    by (auto split: option.splits)
  from Cons.IH [OF s(2)] step_bounds [OF s(1)] show ?case by simp
qed


lemma fit_scenario_ok: "calls_ok fit_scenario"
  by (simp add: fit_scenario_def js_div_def)


lemma exponent_of_numeral:
  "exponent_of (numeral n) x =
     (if 2 \<le> x then exponent_of (pred_numeral n) (x / 2) + 1
      else if x < 1 then exponent_of (pred_numeral n) (x * 2) - 1
      else 0)"
  by (simp add: numeral_eq_Suc)

lemma binary64_values:
  "binary64 (- (9 / 10)) = - (8106479329266893 / 9007199254740992)"
  "binary64 (- (8106479329266893 / 9007199254740992)) = - (8106479329266893 / 9007199254740992)"
  "binary64 (900719925474099 / 9007199254740992) = 900719925474099 / 9007199254740992"
  "binary64 0 = 0"
  "binary64 1 = 1"
  "binary64 (- 4600) = - 4600"
  "binary64 (- 2200) = - 2200"
  by (simp_all add: binary64_def exponent_of_numeral two_to_def round_half_even_def Let_def)

lemma animated_fit_run:
  "run animated_fit (Viewport_new default_options) =
     Some ((Viewport_new default_options)
       \<lparr> transform := \<lparr> t_x = - 4600, t_y = - 2200, scale = 900719925474099 / 9007199254740992 \<rparr>,
         emitted := [ZOOM_CHANGE 1, PAN_CHANGE 0 0,
                     ZOOM_CHANGE (900719925474099 / 9007199254740992), PAN_CHANGE (- 4600) (- 2200)] \<rparr>)"
  by (simp add: animated_fit_def default_options_def Viewport_new_def js_or_def fitBounds_def
      js_div_def Let_def clamp_def setTransform_def applyTransform_def animateTransform_def
      animate_frame_def zoomDuration_def easeInOutCubic_def lerp_def frame_def binary64_values)


lemma fit_scenario_first_scale:
  "map_option (\<lambda>vp. scale (transform vp))
     (run (take 1 fit_scenario) (Viewport_new default_options)) = Some (7 / 10)"
  by (simp add: fit_scenario_def default_options_def Viewport_new_def js_or_def fitBounds_def
      js_div_def Let_def clamp_def setTransform_def applyTransform_def)

section \<open>Command history: theorems\<close>

lemma set_isExecuting_simps [simp]:
  "fst (set_isExecuting b s) = (fst s) \<lparr> isExecuting := b \<rparr>"
  "snd (set_isExecuting b s) = snd s"
  by (simp_all add: set_isExecuting_def)

lemma finally_release_guard: "\<not> isExecuting (fst (state_of (finally_release r)))"
  by (cases r) simp_all






section \<open>Node tree: theorems\<close>

subsection \<open>Basic store lemmas\<close>

lemma update_node_simps [simp]:
  "heap (update_node a f s) = (heap s) (a := f (heap s a))"
  "next_addr (update_node a f s) = next_addr s"
  "entropy (update_node a f s) = entropy s"
  "used (update_node a f s) = used s"
  by (simp_all add: update_node_def)

lemma generateId_simps [simp]:
  "heap (snd (generateId p s)) = heap s"
  "next_addr (snd (generateId p s)) = next_addr s"
  "entropy (snd (generateId p s)) = entropy s"
  "used (snd (generateId p s)) = Suc (used s)"
  by (simp_all add: generateId_def)

lemma findIndex_Some:
  "findIndex P xs = Some i \<Longrightarrow> i < length xs \<and> P (xs ! i) \<and> (\<forall>j < i. \<not> P (xs ! j))"
proof (induction xs arbitrary: i)
  case Nil
  then show ?case by simp
next
  case (Cons x xs)
  show ?case
  proof (cases "P x")
    case True
    with Cons.prems show ?thesis by simp
  next
    case False
    with Cons.prems obtain j where j: "findIndex P xs = Some j" "i = Suc j" by auto
    from Cons.IH [OF j(1)] False j(2) show ?thesis
      by (auto simp: nth_Cons split: nat.splits)
  qed
qed

lemma findIndex_None: "findIndex P xs = None \<longleftrightarrow> (\<forall>x \<in> set xs. \<not> P x)"
  by (induction xs) auto

lemma indexOf_remove1:
  "indexOf v xs = Some i \<Longrightarrow> take i xs @ drop (Suc i) xs = remove1 v xs"
proof (induction xs arbitrary: i)
  case Nil
  then show ?case by (simp add: indexOf_def)
next
  case (Cons x xs)
  then show ?case by (auto simp: indexOf_def split: if_splits)
qed

lemma indexOf_nth: "indexOf v xs = Some i \<Longrightarrow> xs ! i = v \<and> i < length xs"
  using findIndex_Some [of "\<lambda>x. x = v" xs i] by (simp add: indexOf_def)

lemma indexOf_None: "indexOf v xs = None \<longleftrightarrow> v \<notin> set xs"
  by (auto simp: indexOf_def findIndex_None)

lemma indexOf_None_remove1: "indexOf v xs = None \<Longrightarrow> remove1 v xs = xs"
  by (simp add: indexOf_None remove1_idem)

subsection \<open>Tags\<close>

lemma addTag_tags:
  "tags (heap (addTag t a s) a) = (if t \<in> set (tags (heap s a)) then tags (heap s a) else tags (heap s a) @ [t])"
  by (simp add: addTag_def)

lemma removeTag_tags: "tags (heap (removeTag t a s) a) = remove1 t (tags (heap s a))"
  by (cases "indexOf t (tags (heap s a))")
     (simp_all add: removeTag_def indexOf_remove1 indexOf_None_remove1)

lemma tag_step_distinct:
  "distinct (tags (heap s a)) \<Longrightarrow> distinct (tags (heap (tag_step a c s) a))"
  by (cases c) (simp_all add: addTag_tags removeTag_tags)

lemma tag_run_distinct:
  "distinct (tags (heap s a)) \<Longrightarrow> distinct (tags (heap (tag_run a cs s) a))"
  unfolding tag_run_def
  by (induction cs arbitrary: s) (simp_all add: tag_step_distinct)


subsection \<open>Constructor frame\<close>

lemma init_node_fst: "fst (init_node f s) = next_addr s"
  by (simp add: init_node_def Let_def split: prod.splits)

lemma init_node_store:
  "next_addr (snd (init_node f s)) = Suc (next_addr s)"
  "entropy (snd (init_node f s)) = entropy s"
  by (simp_all add: init_node_def Let_def generateId_def split: prod.splits option.splits)


lemma init_node_heap_other:
  "b \<noteq> next_addr s \<Longrightarrow> heap (snd (init_node f s)) b = heap s b"
  by (simp add: init_node_def Let_def generateId_def split: prod.splits option.splits)

lemma init_node_fields:
  "tags (heap (snd (init_node f s)) (next_addr s)) = (case d_tags f of Some ts \<Rightarrow> ts | None \<Rightarrow> [])"
  "children (heap (snd (init_node f s)) (next_addr s)) = []"
  "parent (heap (snd (init_node f s)) (next_addr s)) = None"
  by (simp_all add: init_node_def Let_def generateId_def split: prod.splits option.splits)

lemma new_frame:
  "MindNode_new d s = (a, s') \<Longrightarrow>
     a = next_addr s \<and> next_addr s < next_addr s' \<and> entropy s' = entropy s
     \<and> (\<forall>b < next_addr s. heap s' b = heap s b)"
  "new_children ds this s = (cs, s') \<Longrightarrow>
     next_addr s \<le> next_addr s' \<and> entropy s' = entropy s
     \<and> (\<forall>b < next_addr s. heap s' b = heap s b)
     \<and> (\<forall>c \<in> set cs. next_addr s \<le> c \<and> c < next_addr s')"
proof (induction d s and ds this s arbitrary: a s' and cs s' rule: MindNode_new_new_children.induct)
  case (1 f s)
  then have "a = fst (init_node f s)" "s' = snd (init_node f s)" by simp_all
  then show ?case by (simp add: init_node_fst init_node_store init_node_heap_other)
next
  case (2 f ds s)
  obtain this s1 where i: "init_node f s = (this, s1)" by (cases "init_node f s")
  obtain kids s2 where k: "new_children ds this s1 = (kids, s2)" by (cases "new_children ds this s1")
  from "2.IH" [OF i [symmetric] k] have
    n: "next_addr s1 \<le> next_addr s2" "entropy s2 = entropy s1"
    "\<forall>b < next_addr s1. heap s2 b = heap s1 b" by auto
  from "2.prems" i k have r: "a = this" "s' = update_node this (\<lambda>n. n \<lparr> children := kids \<rparr>) s2"
    by auto
  from i have f: "this = next_addr s" "next_addr s1 = Suc (next_addr s)" "entropy s1 = entropy s"
    "\<forall>b < next_addr s. heap s1 b = heap s b"
    using init_node_fst [of f s] init_node_store [of f s] init_node_heap_other [of _ s f] by auto
  show ?case using r n f by auto
next
  case (3 this s)
  then show ?case by simp
next
  case (4 d ds this s)
  obtain child s1 where c: "MindNode_new d s = (child, s1)" by (cases "MindNode_new d s")
  let ?s1' = "update_node child (\<lambda>n. n \<lparr> parent := Some this \<rparr>) s1"
  obtain kids s2 where k: "new_children ds this ?s1' = (kids, s2)"
    by (cases "new_children ds this ?s1'")
  from "4.IH"(1) [OF c] have
    a: "child = next_addr s" "next_addr s < next_addr s1" "entropy s1 = entropy s"
    "\<forall>b < next_addr s. heap s1 b = heap s b" by auto
  from "4.IH"(2) [OF c [symmetric] k] have
    b: "next_addr s1 \<le> next_addr s2" "entropy s2 = entropy s1"
    "\<forall>b < next_addr s1. heap s2 b = heap ?s1' b"
    "\<forall>c \<in> set kids. next_addr s1 \<le> c \<and> c < next_addr s2" by auto
  from "4.prems" c k have r: "cs = child # kids" "s' = s2" by auto
  show ?case using r a b by auto
qed

lemma new_root_tags:
  "MindNode_new (NodeData f ch) s = (a, s') \<Longrightarrow>
     tags (heap s' a) = (case d_tags f of Some ts \<Rightarrow> ts | None \<Rightarrow> [])"
proof (cases ch)
  case None
  assume "MindNode_new (NodeData f ch) s = (a, s')"
  with None have "a = next_addr s" "s' = snd (init_node f s)"
    using init_node_fst [of f s] by auto
  then show ?thesis by (simp add: init_node_fields)
next
  case (Some ds)
  assume m: "MindNode_new (NodeData f ch) s = (a, s')"
  obtain this s1 where i: "init_node f s = (this, s1)" by (cases "init_node f s")
  obtain kids s2 where k: "new_children ds this s1 = (kids, s2)" by (cases "new_children ds this s1")
  from i have t: "this = next_addr s" "s1 = snd (init_node f s)"
    using init_node_fst [of f s] by auto
  then have "this < next_addr s1" by (simp add: init_node_store)
  with new_frame(2) [OF k] have "heap s2 this = heap s1 this" by simp
  moreover from m Some i k have "a = this" "s' = update_node this (\<lambda>n. n \<lparr> children := kids \<rparr>) s2"
    by auto
  ultimately show ?thesis using t by (simp add: init_node_fields)
qed

lemma sample_tree_shape:
  "next_addr sample_tree = 14"
  "n_id (heap sample_tree 10) = ''root''" "n_id (heap sample_tree 11) = ''a''"
  "n_id (heap sample_tree 12) = ''c''" "n_id (heap sample_tree 13) = ''b''"
  "parent (heap sample_tree 10) = None" "parent (heap sample_tree 11) = Some 10"
  "parent (heap sample_tree 12) = Some 11" "parent (heap sample_tree 13) = Some 10"
  "children (heap sample_tree 10) = [11, 13]" "children (heap sample_tree 11) = [12]"
  "children (heap sample_tree 12) = []" "children (heap sample_tree 13) = []"
  "tags (heap sample_tree 10) = []"
  by (simp_all add: sample_tree_def sample_data_def leaf_def empty_store_def no_fields_def
      init_node_def Let_def update_node_def)

text \<open>
  C9 (as amended). For a node whose tags list has no duplicates, after every sequence of
  addTag and removeTag calls the tags list has no duplicates, and addTag of a tag already
  present changes nothing. A node just constructed has the tags of its record, so this
  holds for every node constructed from a record whose tags are absent or free of
  duplicates.
\<close>

theorem tags_stay_distinct:
  "(distinct (tags (heap s a)) \<longrightarrow> distinct (tags (heap (tag_run a cs s) a)))
   \<and> (t \<in> set (tags (heap s a)) \<longrightarrow> addTag t a s = s)
   \<and> (MindNode_new (NodeData f ch) s = (b, s1) \<longrightarrow>
        tags (heap s1 b) = (case d_tags f of Some ts \<Rightarrow> ts | None \<Rightarrow> []))"
  by (simp add: tag_run_distinct addTag_def new_root_tags)

theorem tags_stay_distinct_witness:
  "distinct (tags (heap sample_tree 10))
   \<and> distinct (tags (heap (tag_run 10 [AddTag ''x'', AddTag ''x'', RemoveTag ''y'', AddTag ''y'']
                        sample_tree) 10))
   \<and> ''x'' \<in> set (tags (heap (addTag ''x'' 10 sample_tree) 10))
   \<and> addTag ''x'' 10 (addTag ''x'' 10 sample_tree) = addTag ''x'' 10 sample_tree
   \<and> tags (heap (snd (MindNode_new (leaf ''d'') sample_tree))
                    (fst (MindNode_new (leaf ''d'') sample_tree))) = []"
proof -
  have t: "distinct (tags (heap sample_tree 10))" by (simp add: sample_tree_shape)
  have x: "''x'' \<in> set (tags (heap (addTag ''x'' 10 sample_tree) 10))"
    by (simp add: addTag_tags)
  have m: "MindNode_new (NodeData (no_fields \<lparr> d_id := Some ''d'' \<rparr>) None) sample_tree
      = (fst (MindNode_new (leaf ''d'') sample_tree), snd (MindNode_new (leaf ''d'') sample_tree))"
    by (simp add: leaf_def)
  have n: "d_tags (no_fields \<lparr> d_id := Some ''d'' \<rparr>) = None" by (simp add: no_fields_def)
  from tags_stay_distinct
    [where s = sample_tree and a = 10
      and cs = "[AddTag ''x'', AddTag ''x'', RemoveTag ''y'', AddTag ''y'']"
      and f = "no_fields \<lparr> d_id := Some ''d'' \<rparr>" and ch = None
      and b = "fst (MindNode_new (leaf ''d'') sample_tree)"
      and ?s1.0 = "snd (MindNode_new (leaf ''d'') sample_tree)"]
    tags_stay_distinct [where s = "addTag ''x'' 10 sample_tree" and a = 10 and t = "''x''"] t x m n
  show ?thesis by simp
qed

text \<open>
  The claim as stated fails for a node constructed from a record whose tags repeat an
  entry: the constructor keeps the list as given.
\<close>

theorem constructor_keeps_duplicate_tags_counterexample:
  "\<not> distinct (tags (heap (snd (MindNode_new duplicate_tags_data empty_store))
                          (fst (MindNode_new duplicate_tags_data empty_store))))"
  by (simp add: duplicate_tags_data_def empty_store_def no_fields_def init_node_def Let_def
      generateId_def)


lemma addChild_node:
  "addChild (Inr node) index this s =
     (node,
      (let s2 = update_node node (\<lambda>n. n \<lparr> parent := Some this \<rparr>) s;
           cs = children (heap s this)
       in update_node this
            (\<lambda>n. n \<lparr> children :=
                 (case index of
                    Some i \<Rightarrow> if 0 \<le> i \<and> i \<le> int (length cs)
                              then take (nat i) cs @ [node] @ drop (nat i) cs else cs @ [node]
                  | None \<Rightarrow> cs @ [node]) \<rparr>) s2))"
  by (simp add: addChild_def Let_def split: option.splits)

lemma addChild_data:
  assumes "this < next_addr s" "MindNode_new d s = (child, s1)"
  shows "addChild (Inl d) index this s =
     (child,
      (let s2 = update_node child (\<lambda>n. n \<lparr> parent := Some this \<rparr>) s1;
           cs = children (heap s this)
       in update_node this
            (\<lambda>n. n \<lparr> children :=
                 (case index of
                    Some i \<Rightarrow> if 0 \<le> i \<and> i \<le> int (length cs)
                              then take (nat i) cs @ [child] @ drop (nat i) cs else cs @ [child]
                  | None \<Rightarrow> cs @ [child]) \<rparr>) s2))"
proof -
  from new_frame(1) [OF assms(2)] assms(1) have "child \<noteq> this" "heap s1 this = heap s this"
    by auto
  then show ?thesis using assms(2)
    by (simp add: addChild_def Let_def split: option.splits)
qed

text \<open>
  C4 (as amended). For every node p with k children and every integer index,
  \<open>p.addChild(data, index)\<close> always succeeds, sets the child's parent to p, and inserts
  the child at position \<open>index\<close> when \<open>0 \<le> index \<le> k\<close> and at the end otherwise: a
  negative index appends, as does an index greater than k or an absent one. It returns
  the attached node, which is the node given or the node built from the record given.
\<close>

theorem addChild_inserts:
  assumes "this < next_addr s" and "addChild arg index this s = (child, s')"
  shows "parent (heap s' child) = Some this
     \<and> children (heap s' this) =
         take (insert_position index (length (children (heap s this)))) (children (heap s this))
         @ [child]
         @ drop (insert_position index (length (children (heap s this)))) (children (heap s this))
     \<and> child = (case arg of Inr node \<Rightarrow> node | Inl d \<Rightarrow> fst (MindNode_new d s))"
proof (cases arg)
  case (Inr node)
  with assms(2) show ?thesis
    by (auto simp: addChild_node Let_def insert_position_def split: option.splits)
next
  case (Inl d)
  obtain c s1 where m: "MindNode_new d s = (c, s1)" by (cases "MindNode_new d s")
  from new_frame(1) [OF m] assms(1) have "c \<noteq> this" by auto
  with assms(2) Inl m show ?thesis
    by (auto simp: addChild_data [OF assms(1) m] Let_def insert_position_def split: option.splits)
qed

lemma new_leaf_sample:
  "MindNode_new (leaf ''d'') sample_tree = (14, snd (MindNode_new (leaf ''d'') sample_tree))"
  using new_frame(1) [of "leaf ''d''" sample_tree "fst (MindNode_new (leaf ''d'') sample_tree)"
      "snd (MindNode_new (leaf ''d'') sample_tree)"]
  by (simp add: sample_tree_shape(1) prod_eq_iff)

theorem addChild_inserts_witness:
  "10 < next_addr sample_tree
   \<and> fst (addChild (Inl (leaf ''d'')) (Some 1) 10 sample_tree) = 14
   \<and> parent (heap (snd (addChild (Inl (leaf ''d'')) (Some 1) 10 sample_tree)) 14) = Some 10
   \<and> children (heap (snd (addChild (Inl (leaf ''d'')) (Some 1) 10 sample_tree)) 10) = [11, 14, 13]
   \<and> children (heap (snd (addChild (Inl (leaf ''d'')) (Some 7) 10 sample_tree)) 10) = [11, 13, 14]"
proof -
  have a: "10 < next_addr sample_tree" by (simp add: sample_tree_shape(1))
  have c: "fst (addChild (Inl (leaf ''d'')) index 10 sample_tree) = 14" for index
    by (simp add: addChild_data [OF a new_leaf_sample])
  have p: "addChild (Inl (leaf ''d'')) index 10 sample_tree
      = (14, snd (addChild (Inl (leaf ''d'')) index 10 sample_tree))" for index
    using c [of index] by (simp add: prod_eq_iff)
  from addChild_inserts [OF a p [of "Some 1"]] addChild_inserts [OF a p [of "Some 7"]] a c
  show ?thesis
    by (simp add: sample_tree_shape insert_position_def)
qed

text \<open>
  The claim as stated fails for a negative index: the child is appended, not put at the
  front.
\<close>

theorem addChild_negative_index_counterexample:
  "fst (addChild (Inl (leaf ''d'')) (Some (- 1)) 10 sample_tree) = 14
   \<and> children (heap (snd (addChild (Inl (leaf ''d'')) (Some (- 1)) 10 sample_tree)) 10)
       = [11, 13, 14]
   \<and> children (heap (snd (addChild (Inl (leaf ''d'')) (Some (- 1)) 10 sample_tree)) 10) ! 0 \<noteq> 14"
proof -
  have a: "10 < next_addr sample_tree" by (simp add: sample_tree_shape(1))
  show ?thesis
    by (simp add: addChild_data [OF a new_leaf_sample] Let_def sample_tree_shape)
qed

lemma is_ancestor_iff:
  "is_ancestor s n a \<longleftrightarrow> (\<exists>q. parent (heap s a) = Some q \<and> (q = n \<or> is_ancestor s n q))"
  by (subst is_ancestor.simps) auto

lemma loop_has_root:
  "has_root s a \<Longrightarrow> isDescendantOf_loop s n (Some a) = Some (a = n \<or> is_ancestor s n a)"
proof (induction rule: has_root.induct)
  case (root a)
  then show ?case
    by (subst isDescendantOf_loop.simps, subst isDescendantOf_loop.simps)
       (simp add: is_ancestor_iff [of s n a])
next
  case (step a q)
  then show ?case
    by (subst isDescendantOf_loop.simps) (simp add: is_ancestor_iff [of s n a])
qed

lemma loop_is_ancestor:
  "is_ancestor s n a \<Longrightarrow> isDescendantOf_loop s n (parent (heap s a)) = Some True"
proof (induction rule: is_ancestor.induct)
  case (direct a)
  then show ?case by (subst isDescendantOf_loop.simps) simp
next
  case (above a q)
  then show ?case by (subst isDescendantOf_loop.simps) simp
qed

lemma isDescendantOf_has_root:
  assumes "has_root s a"
  shows "isDescendantOf n a s = Some (is_ancestor s n a)"
proof (cases "parent (heap s a)")
  case None
  then show ?thesis
    by (subst isDescendantOf_def, subst isDescendantOf_loop.simps) (simp add: is_ancestor_iff [of s n a])
next
  case (Some q)
  with assms have "has_root s q" by (auto elim: has_root.cases)
  from loop_has_root [OF this, of n] Some show ?thesis
    by (simp add: isDescendantOf_def is_ancestor_iff [of s n a])
qed

lemma children_parent_update [simp]:
  "children (heap (update_node c (\<lambda>n. n \<lparr> parent := v \<rparr>) s) a) = children (heap s a)"
  by simp

lemma removeChild_ref:
  "removeChild (Inl c) this s =
     (if c \<in> set (children (heap s this))
      then (True, update_node this (\<lambda>n. n \<lparr> children := remove1 c (children (heap s this)) \<rparr>)
                    (update_node c (\<lambda>n. n \<lparr> parent := None \<rparr>) s))
      else (False, s))"
proof (cases "indexOf c (children (heap s this))")
  case None
  then have "c \<notin> set (children (heap s this))" by (simp add: indexOf_None)
  with None show ?thesis by (simp add: removeChild_def Let_def)
next
  case (Some i)
  then have "c \<in> set (children (heap s this))" using indexOf_None [of c "children (heap s this)"] by auto
  moreover have "take i (children (heap s this)) @ drop (Suc i) (children (heap s this)) = remove1 c (children (heap s this))"
    using indexOf_remove1 [OF Some] .
  moreover have "children (heap s this) ! i = c" using indexOf_nth [OF Some] by simp
  ultimately show ?thesis using Some
    by (simp add: removeChild_def Let_def del: update_node_simps)
qed

lemma detach_parent:
  "parent (heap (snd (removeChild (Inl n) q s)) a) =
     (if a = n \<and> n \<in> set (children (heap s q)) then None else parent (heap s a))"
  by (simp add: removeChild_ref)

lemma detach_children:
  "children (heap (snd (removeChild (Inl n) q s)) a) =
     (if a = q then remove1 n (children (heap s q)) else children (heap s a))"
  by (simp add: removeChild_ref remove1_idem)

lemma attach_parent:
  "parent (heap (snd (addChild (Inr n) index p s)) a) = (if a = n then Some p else parent (heap s a))"
  by (simp add: addChild_node Let_def)

lemma attach_children:
  "children (heap (snd (addChild (Inr n) index p s)) a) =
     (if a = p
      then take (insert_position index (length (children (heap s p)))) (children (heap s p)) @ [n]
           @ drop (insert_position index (length (children (heap s p)))) (children (heap s p))
      else children (heap s a))"
  by (simp add: addChild_node Let_def insert_position_def split: option.splits)

lemma detach_fields:
  "without_links (heap (snd (removeChild (Inl n) q s)) a) = without_links (heap s a)"
  by (simp add: removeChild_ref without_links_def)

lemma attach_fields:
  "without_links (heap (snd (addChild (Inr n) index p s)) a) = without_links (heap s a)"
  by (simp add: addChild_node Let_def without_links_def)

lemma moveTo_eq:
  assumes "has_root s p"
  shows "moveTo p index n s =
     Some (if p = n \<or> is_ancestor s n p then (False, s)
           else (True, snd (addChild (Inr n) index p (detached n s))))"
  using isDescendantOf_has_root [OF assms, of n]
  by (simp add: moveTo_def detached_def Let_def)

lemma detached_children:
  "children (heap (detached n s) a) =
     (if parent (heap s n) = Some a then remove1 n (children (heap s a)) else children (heap s a))"
  by (cases "parent (heap s n)") (simp_all add: detached_def detach_children)

lemma detached_parent:
  "a \<noteq> n \<Longrightarrow> parent (heap (detached n s) a) = parent (heap s a)"
  by (cases "parent (heap s n)") (simp_all add: detached_def detach_parent)

lemma detached_fields:
  "without_links (heap (detached n s) a) = without_links (heap s a)"
  by (cases "parent (heap s n)") (simp_all add: detached_def detach_fields)


subsection \<open>Serialisation and cloning\<close>

lemma deepClone_id: "deepClone v = v"
proof (induction v)
  case (JArr xs)
  then show ?case by (simp add: map_idI)
next
  case (JObj kvs)
  have "map (\<lambda>kv. (fst kv, deepClone (snd kv))) kvs = kvs"
  proof (rule map_idI)
    fix kv assume "kv \<in> set kvs"
    moreover have "snd kv \<in> Basic_BNFs.snds kv" by (cases kv) simp
    ultimately have "deepClone (snd kv) = snd kv" by (rule JObj.IH)
    then show "(fst kv, deepClone (snd kv)) = kv" by simp
  qed
  then show ?case by simp
qed simp_all

lemma deepClone_object_id: "deepClone_object obj = obj"
proof -
  have "deepClone = id" by (rule ext) (simp add: deepClone_id)
  then show ?thesis by (simp add: deepClone_object_def option.map_id)
qed

lemma toJSON_fields_values: "toJSON_fields n = json_fields (values_of n)"
  by (simp add: toJSON_fields_def json_fields_def values_of_def)

lemma mergeStyle_idem:
  "mergeStyle [Some DEFAULT_NODE_STYLE, Some (mergeStyle [Some DEFAULT_NODE_STYLE, st])]
     = mergeStyle [Some DEFAULT_NODE_STYLE, st]"
  by (cases st) (auto simp: mergeStyle_def Object_assign_def map_add_def fun_eq_iff split: option.splits)


lemma tree_mono:
  "tree_at A s par a t \<Longrightarrow> A \<subseteq> B \<Longrightarrow> tree_at B s par a t"
  "trees_at A s par cs ts \<Longrightarrow> A \<subseteq> B \<Longrightarrow> trees_at B s par cs ts"
proof (induction A s par a t and A s par cs ts arbitrary: B and B rule: tree_at_trees_at.induct)
  case (1 A s par a v kids)
  from "1.prems" have "trees_at (A - {a}) s (Some a) (children (heap s a)) kids" by simp
  from "1.IH" [OF this, of "B - {a}"] "1.prems" show ?case by auto
next
  case (2 A s par cs)
  then show ?case by simp
next
  case (3 A s par cs k ks)
  then show ?case by (cases cs) auto
qed

lemma tree_frame:
  "tree_at A s par a t \<Longrightarrow> \<forall>b \<in> A. heap s' b = heap s b \<Longrightarrow> tree_at A s' par a t"
  "trees_at A s par cs ts \<Longrightarrow> \<forall>b \<in> A. heap s' b = heap s b \<Longrightarrow> trees_at A s' par cs ts"
proof (induction A s par a t and A s par cs ts rule: tree_at_trees_at.induct)
  case (1 A s par a v kids)
  from "1.prems" have t: "trees_at (A - {a}) s (Some a) (children (heap s a)) kids"
    and a: "a \<in> A" by simp_all
  from "1.prems"(2) have "\<forall>b \<in> A - {a}. heap s' b = heap s b" by simp
  from "1.IH" [OF t this] "1.prems" a show ?case by simp
next
  case (2 A s par cs)
  then show ?case by simp
next
  case (3 A s par cs k ks)
  then show ?case by (cases cs) auto
qed

lemma tree_root_parent:
  assumes "tree_at A s par a t"
  shows "tree_at A (update_node a (\<lambda>n. n \<lparr> parent := p \<rparr>) s) p a t"
proof (cases t)
  case (VTree v kids)
  with assms have t: "trees_at (A - {a}) s (Some a) (children (heap s a)) kids" by simp
  have "trees_at (A - {a}) (update_node a (\<lambda>n. n \<lparr> parent := p \<rparr>) s) (Some a) (children (heap s a)) kids"
    by (rule tree_frame(2) [OF t]) simp
  with assms VTree show ?thesis by (simp add: values_of_def)
qed

lemma init_node_values:
  "values_of (heap (snd (init_node f s)) (next_addr s)) = fst (init_values f (entropy s) (used s))"
  "used (snd (init_node f s)) = snd (init_values f (entropy s) (used s))"
  by (simp_all add: init_node_def init_values_def Let_def generateId_def values_of_def
      split: prod.splits option.splits)


lemma new_tree:
  "MindNode_new d s = (a, s') \<Longrightarrow>
     tree_at {next_addr s ..< next_addr s'} s' None a (fst (built d (entropy s) (used s)))
     \<and> used s' = snd (built d (entropy s) (used s))"
  "new_children ds this s = (cs, s') \<Longrightarrow> this < next_addr s \<Longrightarrow>
     trees_at {next_addr s ..< next_addr s'} s' (Some this) cs (fst (built_list ds (entropy s) (used s)))
     \<and> used s' = snd (built_list ds (entropy s) (used s))"
proof (induction d s and ds this s arbitrary: a s' and cs s' rule: MindNode_new_new_children.induct)
  case (1 f s)
  then have r: "a = next_addr s" "s' = snd (init_node f s)"
    using init_node_fst [of f s] by auto
  then show ?case
    by (simp add: init_node_values init_node_store init_node_fields)
next
  case (2 f ds s)
  obtain this s1 where i: "init_node f s = (this, s1)" by (cases "init_node f s")
  obtain kids s2 where k: "new_children ds this s1 = (kids, s2)" by (cases "new_children ds this s1")
  from i have t: "this = next_addr s" "s1 = snd (init_node f s)"
    using init_node_fst [of f s] by auto
  then have n1: "next_addr s1 = Suc (next_addr s)" "entropy s1 = entropy s"
    "used s1 = snd (init_values f (entropy s) (used s))"
    by (simp_all add: init_node_store init_node_values)
  have lt: "this < next_addr s1" using t n1 by simp
  from "2.IH" [OF i [symmetric] k lt] have
    ih: "trees_at {next_addr s1 ..< next_addr s2} s2 (Some this) kids
           (fst (built_list ds (entropy s1) (used s1)))"
    and u: "used s2 = snd (built_list ds (entropy s1) (used s1))" by auto
  from new_frame(2) [OF k] have fr: "next_addr s1 \<le> next_addr s2"
    "heap s2 this = heap s1 this" using lt by auto
  from "2.prems" i k have r: "a = this" "s' = update_node this (\<lambda>n. n \<lparr> children := kids \<rparr>) s2"
    by auto
  have set_eq: "{next_addr s ..< next_addr s2} - {this} = {next_addr s1 ..< next_addr s2}"
    using t n1 by auto
  have "trees_at {next_addr s1 ..< next_addr s2} s' (Some this) kids
           (fst (built_list ds (entropy s1) (used s1)))"
    by (rule tree_frame(2) [OF ih]) (use r t n1 in auto)
  moreover have "values_of (heap s' this) = fst (init_values f (entropy s) (used s))"
    "parent (heap s' this) = None" "children (heap s' this) = kids" "this \<in> {next_addr s ..< next_addr s2}"
    using r fr t n1 init_node_values(1) [of f s] init_node_fields [of f s]
    by (simp_all add: values_of_def)
  ultimately show ?case using r u n1 set_eq
    by (simp add: split_beta)
next
  case (3 this s)
  then show ?case by simp
next
  case (4 d ds this s)
  obtain child s1 where c: "MindNode_new d s = (child, s1)" by (cases "MindNode_new d s")
  let ?s1' = "update_node child (\<lambda>n. n \<lparr> parent := Some this \<rparr>) s1"
  obtain kids s2 where k: "new_children ds this ?s1' = (kids, s2)"
    by (cases "new_children ds this ?s1'")
  from "4.IH"(1) [OF c] have
    t1: "tree_at {next_addr s ..< next_addr s1} s1 None child (fst (built d (entropy s) (used s)))"
    and u1: "used s1 = snd (built d (entropy s) (used s))" by auto
  from new_frame(1) [OF c] have f1: "next_addr s < next_addr s1" "entropy s1 = entropy s" by auto
  have lt: "this < next_addr ?s1'" using "4.prems"(2) f1 by simp
  from "4.IH"(2) [OF c [symmetric] k lt] have
    t2: "trees_at {next_addr s1 ..< next_addr s2} s2 (Some this) kids
           (fst (built_list ds (entropy s1) (used s1)))"
    and u2: "used s2 = snd (built_list ds (entropy s1) (used s1))" by auto
  from new_frame(2) [OF k] have f2: "next_addr s1 \<le> next_addr s2"
    "\<forall>b < next_addr s1. heap s2 b = heap ?s1' b" by auto
  have "tree_at {next_addr s ..< next_addr s1} ?s1' (Some this) child (fst (built d (entropy s) (used s)))"
    by (rule tree_root_parent [OF t1])
  then have "tree_at {next_addr s ..< next_addr s1} s2 (Some this) child (fst (built d (entropy s) (used s)))"
    by (rule tree_frame(1)) (use f2 in auto)
  then have a: "tree_at {next_addr s ..< next_addr s2} s2 (Some this) child (fst (built d (entropy s) (used s)))"
    by (rule tree_mono(1)) (use f2 in auto)
  have b: "trees_at {next_addr s ..< next_addr s2} s2 (Some this) kids
           (fst (built_list ds (entropy s1) (used s1)))"
    by (rule tree_mono(2) [OF t2]) (use f1 in auto)
  from "4.prems" c k have r: "cs = child # kids" "s' = s2" by auto
  show ?case using r a b u1 u2 f1 by (simp add: split_beta)
qed

lemma trees_at_length: "trees_at A s par cs ts \<Longrightarrow> length cs = length ts"
  by (induction ts arbitrary: cs) (auto split: list.splits)

lemma fold_max_le: "fold max xs (m::nat) \<le> k \<longleftrightarrow> m \<le> k \<and> (\<forall>x \<in> set xs. x \<le> k)"
  by (induction xs arbitrary: m) auto

lemma height_kids: "height (VTree v kids) \<le> Suc k \<longleftrightarrow> (\<forall>t \<in> set kids. height t \<le> k)"
  by (simp add: fold_max_le)

lemma height_pos: "0 < height t"
  by (cases t) simp

lemma toJSON_tree:
  "tree_at A s par a t \<Longrightarrow> height t \<le> k \<Longrightarrow> toJSON k a s = Some (json_of t)"
  "trees_at A s par cs ts \<Longrightarrow> \<forall>t \<in> set ts. height t \<le> k \<Longrightarrow>
     sequence (map (\<lambda>c. toJSON k c s) cs) = Some (map json_of ts)"
proof (induction A s par a t and A s par cs ts arbitrary: k and k rule: tree_at_trees_at.induct)
  case (1 A s par a v kids)
  from "1.prems"(2) obtain k' where k: "k = Suc k'" by (cases k) auto
  from "1.prems"(1) have t: "trees_at (A - {a}) s (Some a) (children (heap s a)) kids"
    and v: "values_of (heap s a) = v" by simp_all
  from "1.prems"(2) k have h: "\<forall>t \<in> set kids. height t \<le> k'" by (simp add: fold_max_le)
  from "1.IH" [OF t h] have
    sq: "sequence (map (\<lambda>c. toJSON k' c s) (children (heap s a))) = Some (map json_of kids)" .
  from trees_at_length [OF t] have l: "(length (children (heap s a)) > 0) = (kids \<noteq> [])" by auto
  show ?case using k sq l v by (simp add: toJSON_fields_values)
next
  case (2 A s par cs)
  then show ?case by simp
next
  case (3 A s par cs t ts)
  then obtain c cs' where c: "cs = c # cs'" "tree_at A s par c t" "trees_at A s par cs' ts"
    by (cases cs) auto
  from "3.IH"(1) [OF c(1) c(2), of k] "3.IH"(2) [OF c(1) c(3), of k] "3.prems"(2) c(1)
  show ?case by simp
qed

lemma tree_unique:
  "tree_at A s par a t \<Longrightarrow> tree_at B s par' a t' \<Longrightarrow> t = t'"
  "trees_at A s par cs ts \<Longrightarrow> trees_at B s par' cs ts' \<Longrightarrow> ts = ts'"
proof (induction A s par a t and A s par cs ts arbitrary: B par' t' and B par' ts'
    rule: tree_at_trees_at.induct)
  case (1 A s par a v kids)
  obtain v' kids' where t': "t' = VTree v' kids'" by (cases t')
  from "1.prems" t' have "trees_at (A - {a}) s (Some a) (children (heap s a)) kids"
    "trees_at (B - {a}) s (Some a) (children (heap s a)) kids'" "v = v'" by auto
  from "1.IH" [OF this(1,2)] this(3) t' show ?case by simp
next
  case (2 A s par cs)
  then show ?case by (cases ts') (auto split: list.splits)
next
  case (3 A s par cs t ts)
  then obtain c cs' where c: "cs = c # cs'" "tree_at A s par c t" "trees_at A s par cs' ts"
    by (cases cs) auto
  with "3.prems"(2) obtain t2 ts2 where t2: "ts' = t2 # ts2" "tree_at B s par' c t2"
    "trees_at B s par' cs' ts2" by (cases ts') auto
  from "3.IH"(1) [OF c(1) c(2) t2(2)] "3.IH"(2) [OF c(1) c(3) t2(3)] t2(1) show ?case by simp
qed

lemma generated_nonempty: "fst (generateId ''node'' s) \<noteq> []"
  by (simp add: generateId_def)

lemma init_values_normal:
  "v_id (fst (init_values f e u)) \<noteq> []"
  "truthy (v_text (fst (init_values f e u)))"
  "mergeStyle [Some DEFAULT_NODE_STYLE, Some (v_style (fst (init_values f e u)))]
     = v_style (fst (init_values f e u))"
  by (auto simp: init_values_def Let_def DEFAULT_TEXT_def mergeStyle_idem split: option.splits)

lemma built_normal:
  "constructor_normal (fst (built d e u))"
  "list_all constructor_normal (fst (built_list ds e u))"
proof (induction d e u and ds e u rule: built_built_list.induct)
  case (1 f e u)
  then show ?case by (simp add: init_values_normal)
next
  case (2 f ds e u)
  then show ?case by (simp add: init_values_normal split_beta)
next
  case (3 e u)
  then show ?case by simp
next
  case (4 d ds e u)
  from "4.IH"(2) [of "fst (built d e u)" "snd (built d e u)"] "4.IH"(1)
  show ?case by (simp add: split_beta)
qed

lemma init_values_json:
  assumes "v_id v \<noteq> []" "truthy (v_text v)"
    "mergeStyle [Some DEFAULT_NODE_STYLE, Some (v_style v)] = v_style v" "g \<noteq> []"
  shows "init_values (json_fields v) e u
           = (v \<lparr> v_type := (if v_type v = Some [] then None else v_type v) \<rparr>, u)"
    "init_values ((json_fields v) \<lparr> d_id := Some g \<rparr>) e u
           = (v \<lparr> v_id := g, v_type := (if v_type v = Some [] then None else v_type v) \<rparr>, u)"
  using assms
  by (auto simp: init_values_def json_fields_def Let_def deepClone_id deepClone_object_id
      split: option.splits)

lemma built_json:
  "constructor_normal t \<Longrightarrow> built (json_of t) e u = (drop_empty_types t, u)"
proof (induction t arbitrary: u)
  case (VTree v kids)
  then have n: "v_id v \<noteq> []" "truthy (v_text v)"
    "mergeStyle [Some DEFAULT_NODE_STYLE, Some (v_style v)] = v_style v"
    and ks: "list_all constructor_normal kids" by simp_all
  have l: "built_list (map json_of ks) e u = (map drop_empty_types ks, u)"
    if "set ks \<subseteq> set kids" for ks u
    using that
  proof (induction ks arbitrary: u)
    case Nil
    then show ?case by simp
  next
    case (Cons k ks)
    then have "k \<in> set kids" "constructor_normal k" using ks by (auto simp: list_all_iff)
    from VTree.IH [OF this] Cons show ?case by simp
  qed
  show ?case using init_values_json(1) [OF n, of "''x''" e u] l [of kids]
    by (cases kids) simp_all
qed

lemma sample_new: "MindNode_new sample_data empty_store = (10, sample_tree)"
  using new_frame(1) [of sample_data empty_store "fst (MindNode_new sample_data empty_store)"
      "snd (MindNode_new sample_data empty_store)"]
  by (simp add: sample_tree_def prod_eq_iff empty_store_def)

lemma sample_values_tree: "tree_at {10 ..< 14} sample_tree None 10 sample_values"
  using new_tree(1) [OF sample_new]
  by (simp add: sample_values_def sample_tree_shape(1) empty_store_def)

lemma sample_values_ids: "ids_of sample_values = [''root'', ''a'', ''c'', ''b'']"
  by (simp add: sample_values_def sample_data_def leaf_def no_fields_def init_values_def Let_def)







text \<open>
  C5. The claim: \<open>n.clone(true)\<close> produces a node whose id differs from n's and,
  recursively, whose every descendant has an id different from every id in n's subtree.
  The code at a node with a child: in the sample tree, node a (at address 11, id
  \<open>a\<close>) has one child (at address 12), whose id is \<open>c\<close>. \<open>a.clone(true)\<close>
  returns a new node (at address 14) with one child (at address 15), and the id of that
  child is \<open>c\<close> again, an id of a's subtree. \<open>clone\<close> renews the id of the
  record of the node itself only; the records of the children, as \<open>toJSON\<close> produced
  them, keep their ids, and the constructor takes over every id it is given.
\<close>

theorem clone_descendant_id_not_fresh:
  "clone 2 True 11 sample_tree \<noteq> None
   \<and> fst (the (clone 2 True 11 sample_tree)) = 14
   \<and> children (heap (snd (the (clone 2 True 11 sample_tree))) 14) = [15]
   \<and> n_id (heap (snd (the (clone 2 True 11 sample_tree))) 15) = ''c''
   \<and> n_id (heap sample_tree 11) = ''a''
   \<and> children (heap sample_tree 11) = [12]
   \<and> n_id (heap sample_tree 12) = ''c''"
  by (simp add: clone_def numeral_2_eq_2 sample_tree_def sample_data_def leaf_def empty_store_def
      no_fields_def init_node_def Let_def update_node_def toJSON_fields_def generateId_def)

subsection \<open>Moving a node\<close>

lemma is_ancestor_trans:
  "is_ancestor s c p \<Longrightarrow> parent (heap s c) = Some a \<Longrightarrow> is_ancestor s a p"
proof (induction rule: is_ancestor.induct)
  case (direct p)
  from direct(2) have "is_ancestor s a c" by (rule is_ancestor.direct)
  with direct(1) show ?case by (rule is_ancestor.above)
next
  case (above p q)
  from above(1) above(3) [OF above(4)] show ?case by (rule is_ancestor.above)
qed

text \<open>
  In a tree, the nodes that the \<open>descendants\<close> getter lists for a node are nodes that
  reach it by parent references.
\<close>

lemma descendants_below:
  "tree_at A s par a t \<Longrightarrow> height t \<le> k \<Longrightarrow>
     \<exists>ds. descendants k a s = Some ds \<and> (\<forall>p \<in> set ds. is_ancestor s a p)"
  "trees_at A s par cs ts \<Longrightarrow> \<forall>t \<in> set ts. height t \<le> k \<Longrightarrow>
     \<exists>dss. sequence (map (\<lambda>c. map_option ((#) c) (descendants k c s)) cs) = Some dss
       \<and> (\<forall>a. par = Some a \<longrightarrow> (\<forall>p \<in> set (concat dss). is_ancestor s a p))"
proof (induction A s par a t and A s par cs ts arbitrary: k and k rule: tree_at_trees_at.induct)
  case (1 A s par a v kids)
  from "1.prems"(2) obtain k' where k: "k = Suc k'" by (cases k) auto
  from "1.prems"(1) have t: "trees_at (A - {a}) s (Some a) (children (heap s a)) kids" by simp
  from "1.prems"(2) k have h: "\<forall>t \<in> set kids. height t \<le> k'" by (simp add: fold_max_le)
  from "1.IH" [OF t h] obtain dss where
    "sequence (map (\<lambda>c. map_option ((#) c) (descendants k' c s)) (children (heap s a))) = Some dss"
    "\<forall>p \<in> set (concat dss). is_ancestor s a p" by blast
  then show ?case using k by simp
next
  case (2 A s par cs)
  then show ?case by simp
next
  case (3 A s par cs t ts)
  then obtain c cs' where c: "cs = c # cs'" "tree_at A s par c t" "trees_at A s par cs' ts"
    by (cases cs) auto
  from "3.prems"(2) have h: "height t \<le> k" "\<forall>t \<in> set ts. height t \<le> k" by simp_all
  from "3.IH"(1) [OF c(1) c(2) h(1)] obtain ds where
    ds: "descendants k c s = Some ds" "\<forall>p \<in> set ds. is_ancestor s c p" by blast
  from "3.IH"(2) [OF c(1) c(3) h(2)] obtain dss where
    dss: "sequence (map (\<lambda>c. map_option ((#) c) (descendants k c s)) cs') = Some dss"
    "\<forall>a. par = Some a \<longrightarrow> (\<forall>p \<in> set (concat dss). is_ancestor s a p)" by blast
  from c(2) have pc: "parent (heap s c) = par" by (cases t) simp
  have "\<forall>a. par = Some a \<longrightarrow> (\<forall>p \<in> set (c # ds). is_ancestor s a p)"
    using ds(2) pc by (auto intro: is_ancestor.direct is_ancestor_trans)
  with ds(1) dss c(1) show ?case by auto
qed


lemma sample_has_root: "has_root sample_tree 10" "has_root sample_tree 11"
  "has_root sample_tree 12" "has_root sample_tree 13"
proof -
  show 0: "has_root sample_tree 10" by (rule has_root.root) (simp add: sample_tree_shape)
  show 1: "has_root sample_tree 11" by (rule has_root.step [OF _ 0]) (simp add: sample_tree_shape)
  show "has_root sample_tree 12" by (rule has_root.step [OF _ 1]) (simp add: sample_tree_shape)
  show "has_root sample_tree 13" by (rule has_root.step [OF _ 0]) (simp add: sample_tree_shape)
qed

lemma sample_ancestors:
  "is_ancestor sample_tree 11 12" "\<not> is_ancestor sample_tree 12 13"
  "\<not> is_ancestor sample_tree 12 10"
proof -
  show "is_ancestor sample_tree 11 12" by (rule is_ancestor.direct) (simp add: sample_tree_shape)
  show 0: "\<not> is_ancestor sample_tree 12 10"
    by (subst is_ancestor_iff) (simp add: sample_tree_shape)
  show "\<not> is_ancestor sample_tree 12 13"
    using 0 by (subst is_ancestor_iff) (simp add: sample_tree_shape)
qed


text \<open>
  The hypothesis on the parent references is needed: on a node that is its own parent
  (which \<open>addChild\<close> of a node to itself produces, against the tree invariant) the loop
  of \<open>isDescendantOf\<close> does not return, and neither does \<open>moveTo\<close>.
\<close>

lemma isDescendantOf_loop_cycle:
  assumes "parent (heap s c) = Some c" "c \<noteq> n"
  shows "isDescendantOf_loop s n (Some c) = None"
proof (rule ccontr)
  assume "isDescendantOf_loop s n (Some c) \<noteq> None"
  then obtain y where y: "isDescendantOf_loop s n (Some c) = Some y" by auto
  have "\<not> (s' = s \<and> n' = n \<and> cur = Some c)"
    if "isDescendantOf_loop s' n' cur = Some y'" for s' n' cur y'
  proof (rule isDescendantOf_loop.raw_induct
      [where P = "\<lambda>s' n' cur y'. \<not> (s' = s \<and> n' = n \<and> cur = Some c)", OF _ that])
    fix f s' n' cur y'
    assume ih: "\<And>s' n' cur y'. f s' n' cur = Some y' \<Longrightarrow> \<not> (s' = s \<and> n' = n \<and> cur = Some c)"
      and b: "(case cur of None \<Rightarrow> Some False
               | Some c \<Rightarrow> if c = n' then Some True else f s' n' (parent (heap s' c))) = Some y'"
    show "\<not> (s' = s \<and> n' = n \<and> cur = Some c)"
    proof
      assume e: "s' = s \<and> n' = n \<and> cur = Some c"
      with b assms have "f s n (Some c) = Some y'" by simp
      from ih [OF this] show False by simp
    qed
  qed
  from this [OF y] show False by simp
qed

lemma moveTo_cycle:
  assumes "parent (heap s c) = Some c" "c \<noteq> n"
  shows "moveTo c index n s = None"
  using isDescendantOf_loop_cycle [OF assms] assms
  by (simp add: moveTo_def isDescendantOf_def)

end
